theory Spec2Isabelle
  imports Complex_Main "HOL-Library.Log_Nat"
begin

section \<open>Synthetic electricity price generator (energy\_traces/test-generator.py)\<close>

text \<open>
  The program computes, for every hour of 2021--2024, a baseline price from calendar
  rules, blends it with the previous output, occasionally multiplies it by a spike
  factor, clamps it, and finally writes the series and prints a two-line report.

  Modelling decisions.
  \<^item> Python floats are modelled twice. In the exact model they are the real numbers
    they denote: every decimal literal is the exact rational, and \<open>+\<close>, \<open>*\<close>, \<open>min\<close>,
    \<open>max\<close> are exact. In the float64 model (the definitions whose names end in
    \<open>_f64\<close>) a float is the rational it denotes, every literal is rounded to the nearest
    double and every \<open>+\<close> and \<open>*\<close> rounds its exact result to the nearest double, ties
    to even. The properties that depend on the exact value of a price are stated on the
    float64 model.
  \<^item> A pandas timestamp is a count of time units since 1970-01-01T00:00; its fields
    \<open>year\<close>, \<open>month\<close>, \<open>hour\<close> are computed from that count by the proleptic Gregorian
    calendar. The model counts whole hours, the unit of the generator's grid.
  \<^item> The global numpy random state is made explicit: a random source is a state
    together with the three draw operations the program calls, each returning the
    draw and the next state.
  \<^item> A missing dictionary key is the error value \<open>KeyError\<close>.
\<close>

subsection \<open>Timestamps\<close>

type_synonym timestamp = int

text \<open>Day number (days since 1970-01-01) of a civil date, and back.\<close>

definition days_from_civil :: "int \<Rightarrow> int \<Rightarrow> int \<Rightarrow> int" where
  "days_from_civil y m d =
     (let y' = (if m \<le> 2 then y - 1 else y);
          era = y' div 400;
          yoe = y' mod 400;
          doy = (153 * (if m > 2 then m - 3 else m + 9) + 2) div 5 + d - 1;
          doe = yoe * 365 + yoe div 4 - yoe div 100 + doy
      in era * 146097 + doe - 719468)"

definition civil_from_days :: "int \<Rightarrow> int \<times> int \<times> int" where
  "civil_from_days z =
     (let z' = z + 719468;
          era = z' div 146097;
          doe = z' mod 146097;
          yoe = (doe - doe div 1460 + doe div 36524 - doe div 146096) div 365;
          doy = doe - (365 * yoe + yoe div 4 - yoe div 100);
          mp = (5 * doy + 2) div 153;
          d = doy - (153 * mp + 2) div 5 + 1;
          m = (if mp < 10 then mp + 3 else mp - 9);
          y = yoe + era * 400
      in (if m \<le> 2 then y + 1 else y, m, d))"

text \<open>\<open>Timestamp y m d h\<close> is the instant \<open>y-m-d h:00\<close>.\<close>

definition Timestamp :: "int \<Rightarrow> int \<Rightarrow> int \<Rightarrow> int \<Rightarrow> timestamp" where
  "Timestamp y m d h = days_from_civil y m d * 24 + h"

definition ts_year :: "timestamp \<Rightarrow> int" where
  "ts_year dt = fst (civil_from_days (dt div 24))"

definition ts_month :: "timestamp \<Rightarrow> int" where
  "ts_month dt = fst (snd (civil_from_days (dt div 24)))"

definition ts_day :: "timestamp \<Rightarrow> int" where
  "ts_day dt = snd (snd (civil_from_days (dt div 24)))"

definition ts_hour :: "timestamp \<Rightarrow> int" where
  "ts_hour dt = dt mod 24"

text \<open>
  \<open>pd.date_range(start, end, freq="h")\<close>: the instants \<open>start + k\<close> hours that do not
  exceed \<open>end\<close>, in increasing order.
\<close>

definition date_range :: "timestamp \<Rightarrow> timestamp \<Rightarrow> timestamp list" where
  "date_range start end = [start..end]"

subsection \<open>Baseline price\<close>

datatype error = KeyError int

definition year_factor :: "int \<rightharpoonup> real" where
  "year_factor = [2021 \<mapsto> 0.07, 2022 \<mapsto> 0.15, 2023 \<mapsto> 0.11, 2024 \<mapsto> 0.085]"

definition baseline_price :: "timestamp \<Rightarrow> error + real" where
  "baseline_price dt =
     (case year_factor (ts_year dt) of
        None \<Rightarrow> Inl (KeyError (ts_year dt))
      | Some yf \<Rightarrow>
          (let month = ts_month dt;
               season_mult = (if month \<in> set [12, 1, 2] then 1.25
                              else if month \<in> set [6, 7, 8] then 0.85
                              else 1.05);
               hour = ts_hour dt;
               tod_mult = (if 0 \<le> hour \<and> hour < 6 then 0.85
                           else if 6 \<le> hour \<and> hour < 12 then 1.05
                           else if 12 \<le> hour \<and> hour < 18 then 1.15
                           else if 18 \<le> hour \<and> hour < 22 then 1.20
                           else 1.00)
           in Inr (yf * season_mult * tod_mult)))"

subsection \<open>The random source\<close>

text \<open>
  \<open>np.random.normal(loc, scale)\<close>, \<open>np.random.random()\<close> and
  \<open>np.random.uniform(low, high)\<close>, each reading and advancing the generator state.
\<close>

record 'g np_random =
  rng_normal :: "real \<Rightarrow> real \<Rightarrow> 'g \<Rightarrow> real \<times> 'g"
  rng_random :: "'g \<Rightarrow> real \<times> 'g"
  rng_uniform :: "real \<Rightarrow> real \<Rightarrow> 'g \<Rightarrow> real \<times> 'g"

text \<open>
  A fixed source for running the model on concrete inputs: every noise draw is
  \<open>noise\<close>, every spike test draw is \<open>u\<close>, every spike factor is \<open>m\<close>.
\<close>

definition fixed_rng :: "real \<Rightarrow> real \<Rightarrow> real \<Rightarrow> 'g np_random" where
  "fixed_rng noise u m =
     \<lparr>rng_normal = (\<lambda>loc scale g. (noise, g)),
      rng_random = (\<lambda>g. (u, g)),
      rng_uniform = (\<lambda>low high g. (m, g))\<rparr>"

subsection \<open>The series builder\<close>

text \<open>One pass through the body of the \<open>for\<close> loop (lines 57--75).\<close>

definition loop_body ::
  "'g np_random \<Rightarrow> timestamp \<Rightarrow> real option \<Rightarrow> 'g \<Rightarrow> error + (real \<times> 'g)" where
  "loop_body rng dt prev_price g =
     (case baseline_price dt of
        Inl e \<Rightarrow> Inl e
      | Inr base \<Rightarrow>
          (let (noise, g1) = rng_normal rng 0.0 0.002 g;
               price = (case prev_price of
                          None \<Rightarrow> base + noise
                        | Some p \<Rightarrow> 0.8 * p + 0.2 * (base + noise));
               (u, g2) = rng_random rng g1;
               (price, g3) = (if u < 0.0005
                              then (let (m, g3) = rng_uniform rng 1.5 3.5 g2
                                    in (price * m, g3))
                              else (price, g2));
               price = max price 0.02;
               price = min price 0.40
           in Inr (price, g3)))"

text \<open>
  The loop: \<open>prices\<close> and \<open>prev_price\<close> are the two variables it updates, \<open>g\<close> is
  the generator state. An exception raised in the body leaves the loop.
\<close>

fun prices_loop ::
  "'g np_random \<Rightarrow> timestamp list \<Rightarrow> real list \<Rightarrow> real option \<Rightarrow> 'g
     \<Rightarrow> error + (real list \<times> real option \<times> 'g)" where
  "prices_loop rng [] prices prev_price g = Inr (prices, prev_price, g)"
| "prices_loop rng (dt # dts) prices prev_price g =
     (case loop_body rng dt prev_price g of
        Inl e \<Rightarrow> Inl e
      | Inr (price, g') \<Rightarrow> prices_loop rng dts (prices @ [price]) (Some price) g')"

subsection \<open>Serialisation and report\<close>

text \<open>Decimal rendering of a natural number, as an f-string prints \<open>len(df)\<close>.\<close>

fun str_of_nat :: "nat \<Rightarrow> string" where
  "str_of_nat n =
     (if n < 10 then [''0123456789'' ! n]
      else str_of_nat (n div 10) @ [''0123456789'' ! (n mod 10)])"

text \<open>
  Minimum and maximum of a column; pandas returns NaN for an empty column, which is
  \<open>None\<close> here.
\<close>

definition series_min :: "real list \<Rightarrow> real option" where
  "series_min xs = (case xs of [] \<Rightarrow> None | x # ys \<Rightarrow> Some (fold min ys x))"

definition series_max :: "real list \<Rightarrow> real option" where
  "series_max xs = (case xs of [] \<Rightarrow> None | x # ys \<Rightarrow> Some (fold max ys x))"

text \<open>
  A printed line is the list of the arguments of its \<open>print\<close> call. A float argument
  is kept as a number, its decimal rendering is not modelled.
\<close>

datatype print_arg = Str string | Flt "real option"

record run_output =
  parquet :: "(timestamp \<times> real) list"
  console :: "print_arg list list"

definition timestamps :: "timestamp list" where
  "timestamps = date_range (Timestamp 2021 1 1 0) (Timestamp 2024 12 31 23)"

definition generate_prices :: "'g np_random \<Rightarrow> 'g \<Rightarrow> error + (run_output \<times> 'g)" where
  "generate_prices rng g =
     (case prices_loop rng timestamps [] None g of
        Inl e \<Rightarrow> Inl e
      | Inr (prices, prev_price, g') \<Rightarrow>
          (let df = zip timestamps prices;
               line1 = [Str (''Generated test_set_2021-2024.parquet with ''
                             @ str_of_nat (length df) @ '' rows.'')];
               line2 = [Str ''Example price range:'',
                        Flt (series_min (map snd df)),
                        Str ''to'',
                        Flt (series_max (map snd df)),
                        Str ([CHR 0xE2, CHR 0x82, CHR 0xAC] @ ''/kWh'')]
           in Inr (\<lparr>parquet = df, console = [line1, line2]\<rparr>, g')))"

subsection \<open>Binary floating point\<close>

text \<open>
  A finite double is the rational number it denotes. \<open>round64\<close> rounds a rational to the
  nearest number with a 53-bit significand, ties to the even significand, as IEEE-754
  binary64 does for every result between \<open>2 ^ -1022\<close> and \<open>2 ^ 1024\<close> in magnitude. The
  exponent range is not modelled: the program's prices and factors lie between 0.001
  and 4.
\<close>

type_synonym float64 = rat

definition pow2 :: "int \<Rightarrow> rat" where
  "pow2 e = (if 0 \<le> e then 2 ^ nat e else 1 / 2 ^ nat (- e))"

text \<open>For \<open>x > 0\<close>, the exponent \<open>e\<close> with \<open>2 ^ e \<le> x < 2 ^ (e + 1)\<close>.\<close>

definition ilog2 :: "rat \<Rightarrow> int" where
  "ilog2 x = (let (p, q) = quotient_of x;
                  d = bitlen p - bitlen q
              in if pow2 d \<le> x then d else d - 1)"

definition round_half_even :: "rat \<Rightarrow> int" where
  "round_half_even y =
     (let f = \<lfloor>y\<rfloor>;
          r = y - of_int f
      in if r < 1 / 2 then f
         else if 1 / 2 < r then f + 1
         else if even f then f else f + 1)"

definition round64 :: "rat \<Rightarrow> float64" where
  "round64 x =
     (if x = 0 then 0
      else (let ulp = pow2 (ilog2 \<bar>x\<bar> - 52)
            in sgn x * of_int (round_half_even (\<bar>x\<bar> / ulp)) * ulp))"

definition fadd :: "float64 \<Rightarrow> float64 \<Rightarrow> float64" where
  "fadd a b = round64 (a + b)"

definition fmul :: "float64 \<Rightarrow> float64 \<Rightarrow> float64" where
  "fmul a b = round64 (a * b)"

subsection \<open>The program in float64 arithmetic\<close>

text \<open>
  The same functions, line by line, with float64 literals and operations. Comparisons,
  \<open>min\<close> and \<open>max\<close> are exact on doubles.
\<close>

definition year_factor_f64 :: "int \<rightharpoonup> float64" where
  "year_factor_f64 = [2021 \<mapsto> round64 0.07, 2022 \<mapsto> round64 0.15,
                      2023 \<mapsto> round64 0.11, 2024 \<mapsto> round64 0.085]"

definition baseline_price_f64 :: "timestamp \<Rightarrow> error + float64" where
  "baseline_price_f64 dt =
     (case year_factor_f64 (ts_year dt) of
        None \<Rightarrow> Inl (KeyError (ts_year dt))
      | Some yf \<Rightarrow>
          (let month = ts_month dt;
               season_mult = (if month \<in> set [12, 1, 2] then round64 1.25
                              else if month \<in> set [6, 7, 8] then round64 0.85
                              else round64 1.05);
               hour = ts_hour dt;
               tod_mult = (if 0 \<le> hour \<and> hour < 6 then round64 0.85
                           else if 6 \<le> hour \<and> hour < 12 then round64 1.05
                           else if 12 \<le> hour \<and> hour < 18 then round64 1.15
                           else if 18 \<le> hour \<and> hour < 22 then round64 1.20
                           else round64 1.00)
           in Inr (fmul (fmul yf season_mult) tod_mult)))"

record 'g np_random_f64 =
  f64_normal :: "float64 \<Rightarrow> float64 \<Rightarrow> 'g \<Rightarrow> float64 \<times> 'g"
  f64_random :: "'g \<Rightarrow> float64 \<times> 'g"
  f64_uniform :: "float64 \<Rightarrow> float64 \<Rightarrow> 'g \<Rightarrow> float64 \<times> 'g"

definition fixed_rng_f64 :: "float64 \<Rightarrow> float64 \<Rightarrow> float64 \<Rightarrow> 'g np_random_f64" where
  "fixed_rng_f64 noise u m =
     \<lparr>f64_normal = (\<lambda>loc scale g. (noise, g)),
      f64_random = (\<lambda>g. (u, g)),
      f64_uniform = (\<lambda>low high g. (m, g))\<rparr>"

definition loop_body_f64 ::
  "'g np_random_f64 \<Rightarrow> timestamp \<Rightarrow> float64 option \<Rightarrow> 'g \<Rightarrow> error + (float64 \<times> 'g)" where
  "loop_body_f64 rng dt prev_price g =
     (case baseline_price_f64 dt of
        Inl e \<Rightarrow> Inl e
      | Inr base \<Rightarrow>
          (let (noise, g1) = f64_normal rng (round64 0.0) (round64 0.002) g;
               price = (case prev_price of
                          None \<Rightarrow> fadd base noise
                        | Some p \<Rightarrow> fadd (fmul (round64 0.8) p)
                                          (fmul (round64 0.2) (fadd base noise)));
               (u, g2) = f64_random rng g1;
               (price, g3) = (if u < round64 0.0005
                              then (let (m, g3) = f64_uniform rng (round64 1.5) (round64 3.5) g2
                                    in (fmul price m, g3))
                              else (price, g2));
               price = max price (round64 0.02);
               price = min price (round64 0.40)
           in Inr (price, g3)))"

fun prices_loop_f64 ::
  "'g np_random_f64 \<Rightarrow> timestamp list \<Rightarrow> float64 list \<Rightarrow> float64 option \<Rightarrow> 'g
     \<Rightarrow> error + (float64 list \<times> float64 option \<times> 'g)" where
  "prices_loop_f64 rng [] prices prev_price g = Inr (prices, prev_price, g)"
| "prices_loop_f64 rng (dt # dts) prices prev_price g =
     (case loop_body_f64 rng dt prev_price g of
        Inl e \<Rightarrow> Inl e
      | Inr (price, g') \<Rightarrow> prices_loop_f64 rng dts (prices @ [price]) (Some price) g')"


declare str_of_nat.simps [simp del]

section \<open>Properties of the baseline price\<close>

lemma year_factor_supported:
  "y \<in> {2021, 2022, 2023, 2024} \<Longrightarrow>
   year_factor y = Some (if y = 2021 then 0.07 else if y = 2022 then 0.15
                         else if y = 2023 then 0.11 else 0.085)"
  by (auto simp: year_factor_def)

lemma year_factor_unsupported:
  "y \<notin> {2021, 2022, 2023, 2024} \<Longrightarrow> year_factor y = None"
  by (simp add: year_factor_def)

lemma ts_hour_bounds: "0 \<le> ts_hour dt" "ts_hour dt < 24"
  by (simp_all add: ts_hour_def)

lemma baseline_price_Inr:
  assumes yr: "ts_year dt \<in> {2021, 2022, 2023, 2024}"
  shows "baseline_price dt =
           Inr ((if ts_year dt = 2021 then 0.07 else if ts_year dt = 2022 then 0.15
                 else if ts_year dt = 2023 then 0.11 else 0.085)
                * (if ts_month dt \<in> set [12, 1, 2] then 1.25
                   else if ts_month dt \<in> set [6, 7, 8] then 0.85 else 1.05)
                * (if 0 \<le> ts_hour dt \<and> ts_hour dt < 6 then 0.85
                   else if 6 \<le> ts_hour dt \<and> ts_hour dt < 12 then 1.05
                   else if 12 \<le> ts_hour dt \<and> ts_hour dt < 18 then 1.15
                   else if 18 \<le> ts_hour dt \<and> ts_hour dt < 22 then 1.20
                   else 1.00))"
  by (simp add: baseline_price_def year_factor_supported[OF yr] Let_def)

lemma baseline_price_Inl:
  assumes "ts_year dt \<notin> {2021, 2022, 2023, 2024}"
  shows "baseline_price dt = Inl (KeyError (ts_year dt))"
  by (simp add: baseline_price_def year_factor_unsupported[OF assms])

lemma product_bounds:
  fixes a b c :: real
  assumes "0.07 \<le> a" "a \<le> 0.15" "0.85 \<le> b" "b \<le> 1.25" "0.85 \<le> c" "c \<le> 1.20"
  shows "0.050575 \<le> a * b * c" "a * b * c \<le> 0.225"
proof -
  have "0.07 * 0.85 \<le> a * b" using assms by (intro mult_mono) simp_all
  then have "0.07 * 0.85 * 0.85 \<le> a * b * c" using assms by (intro mult_mono) simp_all
  then show "0.050575 \<le> a * b * c" by simp
  have "a * b \<le> 0.15 * 1.25" using assms by (intro mult_mono) simp_all
  moreover have "0 \<le> a * b" using assms by simp
  ultimately have "a * b * c \<le> 0.15 * 1.25 * 1.20" using assms by (intro mult_mono) simp_all
  then show "a * b * c \<le> 0.225" by simp
qed

lemma baseline_price_range:
  assumes yr: "ts_year dt \<in> {2021, 2022, 2023, 2024}"
  shows "\<exists>b. baseline_price dt = Inr b \<and> 0.050575 \<le> b \<and> b \<le> 0.225"
proof -
  define yf :: real where "yf = (if ts_year dt = 2021 then 0.07 else if ts_year dt = 2022 then 0.15
                 else if ts_year dt = 2023 then 0.11 else 0.085)"
  define sm :: real where "sm = (if ts_month dt \<in> set [12, 1, 2] then 1.25
                   else if ts_month dt \<in> set [6, 7, 8] then 0.85 else 1.05)"
  define tm :: real where "tm = (if 0 \<le> ts_hour dt \<and> ts_hour dt < 6 then 0.85
                   else if 6 \<le> ts_hour dt \<and> ts_hour dt < 12 then 1.05
                   else if 12 \<le> ts_hour dt \<and> ts_hour dt < 18 then 1.15
                   else if 18 \<le> ts_hour dt \<and> ts_hour dt < 22 then 1.20
                   else 1.00)"
  have b: "baseline_price dt = Inr (yf * sm * tm)"
    unfolding yf_def sm_def tm_def by (rule baseline_price_Inr[OF yr])
  have "0.07 \<le> yf" "yf \<le> 0.15" by (simp_all add: yf_def)
  moreover have "0.85 \<le> sm" "sm \<le> 1.25" by (simp_all add: sm_def)
  moreover have "0.85 \<le> tm" "tm \<le> 1.20" by (simp_all add: tm_def)
  ultimately have "0.050575 \<le> yf * sm * tm" "yf * sm * tm \<le> 0.225"
    by (rule product_bounds)+
  with b show ?thesis by (intro exI[of _ "yf * sm * tm"] conjI)
qed

text \<open>
  Claim C10. For a timestamp whose year is one of 2021--2024 the baseline price lies in
  [0.07 * 0.85 * 0.85, 0.15 * 1.25 * 1.20] = [0.050575, 0.225], strictly inside the clamp
  interval [0.02, 0.40], so that neither clamp bound changes it.
\<close>

theorem baseline_price_inside_clamp:
  assumes "ts_year dt \<in> {2021, 2022, 2023, 2024}"
  shows "\<exists>b. baseline_price dt = Inr b
           \<and> 0.07 * 0.85 * 0.85 \<le> b \<and> b \<le> 0.15 * 1.25 * 1.20
           \<and> 0.050575 \<le> b \<and> b \<le> 0.225
           \<and> 0.02 < b \<and> b < 0.40
           \<and> max b 0.02 = b \<and> min b 0.40 = b"
proof -
  obtain b where b: "baseline_price dt = Inr b" "0.050575 \<le> b" "b \<le> 0.225"
    using baseline_price_range[OF assms] by (elim exE conjE)
  have "0.07 * 0.85 * 0.85 \<le> b" "b \<le> 0.15 * 1.25 * 1.20" "0.02 < b" "b < 0.40"
       "max b 0.02 = b" "min b 0.40 = b"
    using b(2,3) by simp_all
  with b show ?thesis by (intro exI[of _ b] conjI)
qed

theorem baseline_price_inside_clamp_witness:
  "ts_year (Timestamp 2021 6 1 0) \<in> {2021, 2022, 2023, 2024}
   \<and> baseline_price (Timestamp 2021 6 1 0) = Inr 0.050575
   \<and> (0.02 :: real) < 0.050575 \<and> (0.050575 :: real) < 0.40"
proof -
  have yr: "ts_year (Timestamp 2021 6 1 0) \<in> {2021, 2022, 2023, 2024}" by code_simp
  have v: "baseline_price (Timestamp 2021 6 1 0) = Inr 0.050575" by code_simp
  from baseline_price_inside_clamp[OF yr] v yr show ?thesis by simp
qed

text \<open>
  Claim C7. For a supported year and a fixed hour of the day, the baseline price of a
  December timestamp is strictly greater than that of a June timestamp of the same year and
  hour.
\<close>

theorem december_exceeds_june:
  assumes "ts_year dec \<in> {2021, 2022, 2023, 2024}" and "ts_year jun = ts_year dec"
    and "ts_hour jun = ts_hour dec" and "ts_month dec = 12" and "ts_month jun = 6"
  shows "\<exists>p q. baseline_price dec = Inr p \<and> baseline_price jun = Inr q \<and> q < p"
proof -
  define yf :: real where "yf = (if ts_year dec = 2021 then 0.07 else if ts_year dec = 2022 then 0.15
                 else if ts_year dec = 2023 then 0.11 else 0.085)"
  define tm :: real where "tm = (if 0 \<le> ts_hour dec \<and> ts_hour dec < 6 then 0.85
                   else if 6 \<le> ts_hour dec \<and> ts_hour dec < 12 then 1.05
                   else if 12 \<le> ts_hour dec \<and> ts_hour dec < 18 then 1.15
                   else if 18 \<le> ts_hour dec \<and> ts_hour dec < 22 then 1.20
                   else 1.00)"
  have yr: "ts_year jun \<in> {2021, 2022, 2023, 2024}" using assms(1,2) by simp
  have p: "baseline_price dec = Inr (yf * 1.25 * tm)"
    using baseline_price_Inr[OF assms(1)] by (simp add: assms yf_def tm_def)
  have q: "baseline_price jun = Inr (yf * 0.85 * tm)"
    using baseline_price_Inr[OF yr] by (simp add: assms yf_def tm_def)
  have "0 < yf" "0 < tm" by (simp_all add: yf_def tm_def)
  then have "yf * 0.85 * tm < yf * 1.25 * tm"
    by (intro mult_strict_right_mono mult_strict_left_mono) simp_all
  with p q show ?thesis by (intro exI[of _ "yf * 1.25 * tm"] exI[of _ "yf * 0.85 * tm"] conjI)
qed

theorem december_exceeds_june_witness:
  "ts_year (Timestamp 2022 12 24 18) \<in> {2021, 2022, 2023, 2024}
   \<and> ts_year (Timestamp 2022 6 24 18) = ts_year (Timestamp 2022 12 24 18)
   \<and> ts_hour (Timestamp 2022 6 24 18) = ts_hour (Timestamp 2022 12 24 18)
   \<and> ts_month (Timestamp 2022 12 24 18) = 12 \<and> ts_month (Timestamp 2022 6 24 18) = 6
   \<and> (\<exists>p q. baseline_price (Timestamp 2022 12 24 18) = Inr p
           \<and> baseline_price (Timestamp 2022 6 24 18) = Inr q \<and> q < p)"
proof -
  have a: "ts_year (Timestamp 2022 12 24 18) \<in> {2021, 2022, 2023, 2024}" by code_simp
  have b: "ts_year (Timestamp 2022 6 24 18) = ts_year (Timestamp 2022 12 24 18)" by code_simp
  have c: "ts_hour (Timestamp 2022 6 24 18) = ts_hour (Timestamp 2022 12 24 18)" by code_simp
  have d: "ts_month (Timestamp 2022 12 24 18) = 12" by code_simp
  have e: "ts_month (Timestamp 2022 6 24 18) = 6" by code_simp
  from december_exceeds_june[OF a b c d e] a b c d e show ?thesis by (intro conjI)
qed

section \<open>Properties of the hourly grid\<close>

subsection \<open>The years of the grid\<close>

lemma yoe_of_doe:
  fixes doe :: int
  assumes "7305 \<le> doe" "doe < 9131"
  shows "(doe - doe div 1460 + doe div 36524 - doe div 146096) div 365 =
           (if doe < 7670 then 20 else if doe < 8035 then 21 else if doe < 8400 then 22
            else if doe < 8766 then 23 else 24)"
proof -
  have a: "doe div 36524 = 0" using assms by simp
  have b: "doe div 146096 = 0" using assms by simp
  have c: "doe div 1460 = (if doe < 8760 then 5 else 6)"
    using assms by (simp split: if_splits) arith
  show ?thesis unfolding a b c using assms by (simp split: if_splits) arith
qed

lemma mp_small:
  fixes doy :: int
  shows "0 \<le> doy \<Longrightarrow> doy < 306 \<Longrightarrow> (5 * doy + 2) div 153 < 10"
  by arith

lemma mp_large:
  fixes doy :: int
  shows "306 \<le> doy \<Longrightarrow> doy < 366 \<Longrightarrow>
         10 \<le> (5 * doy + 2) div 153 \<and> (5 * doy + 2) div 153 - 9 \<le> 2"
  by arith

lemma era5:
  fixes z :: int
  assumes "18628 \<le> z" "z < 20089"
  shows "(z + 719468) div 146097 = 5"
  using assms by simp

lemma rem5:
  fixes z :: int
  assumes "18628 \<le> z" "z < 20089"
  shows "(z + 719468) mod 146097 = z - 11017"
proof -
  have "(z + 719468) mod 146097 = (z + 719468) - 146097 * ((z + 719468) div 146097)"
    by (simp add: minus_mult_div_eq_mod)
  also have "\<dots> = z - 11017" unfolding era5[OF assms] by simp
  finally show ?thesis .
qed

lemma civil_from_days_year:
  assumes era: "(z + 719468) div 146097 = era"
    and rem: "(z + 719468) mod 146097 = doe"
    and yoe: "(doe - doe div 1460 + doe div 36524 - doe div 146096) div 365 = yoe"
    and doy: "doe - (365 * yoe + yoe div 4 - yoe div 100) = doy"
    and mp: "(5 * doy + 2) div 153 = mp"
  shows "fst (civil_from_days z) =
           (if (if mp < 10 then mp + 3 else mp - 9) \<le> 2
            then yoe + era * 400 + 1 else yoe + era * 400)"
  unfolding civil_from_days_def Let_def era rem yoe doy mp by simp

lemma year_jan_feb:
  assumes z: "18628 \<le> z" "z < 20089"
    and yoe: "(z - 11017 - (z - 11017) div 1460 + (z - 11017) div 36524
               - (z - 11017) div 146096) div 365 = yoe"
    and doy: "z - 11017 - (365 * yoe + yoe div 4 - yoe div 100) = doy"
    and late: "306 \<le> doy" "doy < 366"
  shows "fst (civil_from_days z) = yoe + 2001"
proof -
  have "10 \<le> (5 * doy + 2) div 153" "(5 * doy + 2) div 153 - 9 \<le> 2"
    using mp_large[of doy] late by simp_all
  then show ?thesis
    using civil_from_days_year[OF era5[OF z] rem5[OF z] yoe doy refl] by simp
qed

lemma year_mar_dec:
  assumes z: "18628 \<le> z" "z < 20089"
    and yoe: "(z - 11017 - (z - 11017) div 1460 + (z - 11017) div 36524
               - (z - 11017) div 146096) div 365 = yoe"
    and doy: "z - 11017 - (365 * yoe + yoe div 4 - yoe div 100) = doy"
    and early: "0 \<le> doy" "doy < 306"
  shows "fst (civil_from_days z) = yoe + 2000"
proof -
  have "(5 * doy + 2) div 153 < 10" "0 \<le> (5 * doy + 2) div 153"
    using mp_small[of doy] early by simp_all
  then show ?thesis
    using civil_from_days_year[OF era5[OF z] rem5[OF z] yoe doy refl] by simp
qed

lemma year_of_days:
  assumes z: "18628 \<le> z" "z < 20089"
  shows "fst (civil_from_days z) =
           (if z < 18993 then 2021 else if z < 19358 then 2022
            else if z < 19723 then 2023 else 2024)"
proof -
  define doe where "doe = z - 11017"
  have bounds: "7611 \<le> doe" "doe < 9072" using z by (simp_all add: doe_def)
  consider (a) "doe < 7670" | (b) "7670 \<le> doe" "doe < 7976" | (c) "7976 \<le> doe" "doe < 8035"
    | (d) "8035 \<le> doe" "doe < 8341" | (e) "8341 \<le> doe" "doe < 8400"
    | (f) "8400 \<le> doe" "doe < 8706" | (g) "8706 \<le> doe" "doe < 8766" | (h) "8766 \<le> doe"
    by linarith
  then show ?thesis
  proof cases
    case a
    have y: "(doe - doe div 1460 + doe div 36524 - doe div 146096) div 365 = 20"
      using yoe_of_doe[of doe] a bounds by simp
    have "fst (civil_from_days z) = 20 + 2001"
      by (rule year_jan_feb[OF z y[unfolded doe_def], of "doe - 7305"])
         (use a bounds in \<open>simp_all add: doe_def\<close>)
    then show ?thesis using a by (simp add: doe_def)
  next
    case b
    have y: "(doe - doe div 1460 + doe div 36524 - doe div 146096) div 365 = 21"
      using yoe_of_doe[of doe] b bounds by simp
    have "fst (civil_from_days z) = 21 + 2000"
      by (rule year_mar_dec[OF z y[unfolded doe_def], of "doe - 7670"])
         (use b in \<open>simp_all add: doe_def\<close>)
    then show ?thesis using b by (simp add: doe_def)
  next
    case c
    have y: "(doe - doe div 1460 + doe div 36524 - doe div 146096) div 365 = 21"
      using yoe_of_doe[of doe] c bounds by simp
    have "fst (civil_from_days z) = 21 + 2001"
      by (rule year_jan_feb[OF z y[unfolded doe_def], of "doe - 7670"])
         (use c in \<open>simp_all add: doe_def\<close>)
    then show ?thesis using c by (simp add: doe_def)
  next
    case d
    have y: "(doe - doe div 1460 + doe div 36524 - doe div 146096) div 365 = 22"
      using yoe_of_doe[of doe] d bounds by simp
    have "fst (civil_from_days z) = 22 + 2000"
      by (rule year_mar_dec[OF z y[unfolded doe_def], of "doe - 8035"])
         (use d in \<open>simp_all add: doe_def\<close>)
    then show ?thesis using d by (simp add: doe_def)
  next
    case e
    have y: "(doe - doe div 1460 + doe div 36524 - doe div 146096) div 365 = 22"
      using yoe_of_doe[of doe] e bounds by simp
    have "fst (civil_from_days z) = 22 + 2001"
      by (rule year_jan_feb[OF z y[unfolded doe_def], of "doe - 8035"])
         (use e in \<open>simp_all add: doe_def\<close>)
    then show ?thesis using e by (simp add: doe_def)
  next
    case f
    have y: "(doe - doe div 1460 + doe div 36524 - doe div 146096) div 365 = 23"
      using yoe_of_doe[of doe] f bounds by simp
    have "fst (civil_from_days z) = 23 + 2000"
      by (rule year_mar_dec[OF z y[unfolded doe_def], of "doe - 8400"])
         (use f in \<open>simp_all add: doe_def\<close>)
    then show ?thesis using f by (simp add: doe_def)
  next
    case g
    have y: "(doe - doe div 1460 + doe div 36524 - doe div 146096) div 365 = 23"
      using yoe_of_doe[of doe] g bounds by simp
    have "fst (civil_from_days z) = 23 + 2001"
      by (rule year_jan_feb[OF z y[unfolded doe_def], of "doe - 8400"])
         (use g in \<open>simp_all add: doe_def\<close>)
    then show ?thesis using g by (simp add: doe_def)
  next
    case h
    have y: "(doe - doe div 1460 + doe div 36524 - doe div 146096) div 365 = 24"
      using yoe_of_doe[of doe] h bounds by simp
    have "fst (civil_from_days z) = 24 + 2000"
      by (rule year_mar_dec[OF z y[unfolded doe_def], of "doe - 8766"])
         (use h bounds in \<open>simp_all add: doe_def\<close>)
    then show ?thesis using h by (simp add: doe_def)
  qed
qed

lemma Timestamp_start: "Timestamp 2021 1 1 0 = 447072"
  by code_simp

lemma Timestamp_end: "Timestamp 2024 12 31 23 = 482135"
  by code_simp

lemma timestamps_upto: "timestamps = [447072..482135]"
  unfolding timestamps_def date_range_def Timestamp_start Timestamp_end by (rule refl)

lemma set_timestamps: "set timestamps = {447072..482135}"
  unfolding timestamps_upto by (rule set_upto)

lemma div24_less:
  fixes dt :: int
  shows "(dt div 24 < 18993) = (dt < 455832)" "(dt div 24 < 19358) = (dt < 464592)"
    "(dt div 24 < 19723) = (dt < 473352)" "(dt div 24 < 20089) = (dt < 482136)"
    "(18628 \<le> dt div 24) = (447072 \<le> dt)"
  by arith+

lemma ts_year_grid:
  assumes "447072 \<le> dt" "dt \<le> 482135"
  shows "ts_year dt = (if dt < 455832 then 2021 else if dt < 464592 then 2022
                       else if dt < 473352 then 2023 else 2024)"
proof -
  have "18628 \<le> dt div 24" "dt div 24 < 20089" using assms by (simp_all add: div24_less)
  from year_of_days[OF this] show ?thesis
    unfolding ts_year_def by (simp only: div24_less)
qed

lemma timestamps_supported:
  assumes "dt \<in> set timestamps"
  shows "ts_year dt \<in> {2021, 2022, 2023, 2024}"
proof -
  from assms have "447072 \<le> dt" "dt \<le> 482135"
    unfolding set_timestamps by simp_all
  from ts_year_grid[OF this] show ?thesis by simp
qed

section \<open>Properties of the series builder\<close>

lemma loop_body_eq:
  assumes "baseline_price dt = Inr base"
    and "rng_normal rng 0 0.002 g = (noise, g1)"
    and "rng_random rng g1 = (u, g2)"
    and "rng_uniform rng 1.5 3.5 g2 = (m, g3)"
  shows "loop_body rng dt prev_price g =
           Inr (min (max (let raw = (case prev_price of None \<Rightarrow> base + noise
                                     | Some p \<Rightarrow> 0.8 * p + 0.2 * (base + noise))
                          in if u < 0.0005 then raw * m else raw) 0.02) 0.40,
                if u < 0.0005 then g3 else g2)"
  using assms by (simp add: loop_body_def Let_def)

lemma loop_body_bounds:
  assumes "loop_body rng dt prev_price g = Inr (price, g')"
  shows "0.02 \<le> price \<and> price \<le> 0.40"
  using assms
  by (auto simp: loop_body_def Let_def split: sum.splits prod.splits if_splits)

lemma loop_body_total:
  assumes "baseline_price dt = Inr base"
  shows "\<exists>price g'. loop_body rng dt prev_price g = Inr (price, g')"
  using assms by (simp add: loop_body_def Let_def split: prod.splits)

lemma loop_body_error:
  assumes "baseline_price dt = Inl e"
  shows "loop_body rng dt prev_price g = Inl e"
  using assms by (simp add: loop_body_def)

lemma prices_loop_append:
  "prices_loop rng (xs @ ys) prices prev_price g =
     (case prices_loop rng xs prices prev_price g of
        Inl e \<Rightarrow> Inl e
      | Inr (prices', prev', g') \<Rightarrow> prices_loop rng ys prices' prev' g')"
  by (induction xs arbitrary: prices prev_price g) (auto split: sum.splits)

lemma prices_loop_state:
  assumes "prices_loop rng dts prices prev_price g = Inr (prices', prev', g')"
  shows "length prices' = length prices + length dts
         \<and> take (length prices) prices' = prices
         \<and> prev' = (if dts = [] then prev_price else Some (last prices'))"
  using assms
proof (induction dts arbitrary: prices prev_price g)
  case Nil
  then show ?case by simp
next
  case (Cons dt dts)
  from Cons.prems obtain price g1 where
    body: "loop_body rng dt prev_price g = Inr (price, g1)" and
    rest: "prices_loop rng dts (prices @ [price]) (Some price) g1 = Inr (prices', prev', g')"
    by (auto split: sum.splits)
  from Cons.IH[OF rest] have
    len: "length prices' = length (prices @ [price]) + length dts" and
    tk: "take (length (prices @ [price])) prices' = prices @ [price]" and
    pv: "prev' = (if dts = [] then Some price else Some (last prices'))"
    by simp_all
  have "take (length prices) prices' = take (length prices) (take (length (prices @ [price])) prices')"
    by simp
  also have "\<dots> = prices" unfolding tk by simp
  finally have tk': "take (length prices) prices' = prices" .
  have "last prices' = price" if "dts = []"
  proof -
    from that len have "length prices' = length (prices @ [price])" by simp
    with tk have "prices' = prices @ [price]" by (metis take_all order_refl)
    then show ?thesis by simp
  qed
  with pv have "prev' = Some (last prices')" by simp
  with len tk' show ?case by simp
qed

lemma prices_loop_bounds:
  assumes "prices_loop rng dts prices prev_price g = Inr (prices', prev', g')"
    and "\<forall>p \<in> set prices. 0.02 \<le> p \<and> p \<le> 0.40"
  shows "\<forall>p \<in> set prices'. 0.02 \<le> p \<and> p \<le> 0.40"
  using assms
proof (induction dts arbitrary: prices prev_price g)
  case Nil
  then show ?case by simp
next
  case (Cons dt dts)
  from Cons.prems(1) obtain price g1 where
    body: "loop_body rng dt prev_price g = Inr (price, g1)" and
    rest: "prices_loop rng dts (prices @ [price]) (Some price) g1 = Inr (prices', prev', g')"
    by (auto split: sum.splits)
  from loop_body_bounds[OF body] Cons.prems(2)
  have "\<forall>p \<in> set (prices @ [price]). 0.02 \<le> p \<and> p \<le> 0.40" by simp
  from Cons.IH[OF rest this] show ?case .
qed

lemma prices_loop_total:
  assumes "\<forall>dt \<in> set dts. \<exists>base. baseline_price dt = Inr base"
  shows "\<exists>prices' prev' g'. prices_loop rng dts prices prev_price g = Inr (prices', prev', g')"
  using assms
proof (induction dts arbitrary: prices prev_price g)
  case Nil
  then show ?case by simp
next
  case (Cons dt dts)
  then obtain base where "baseline_price dt = Inr base" by auto
  from loop_body_total[OF this, of rng prev_price g] obtain price g1 where
    body: "loop_body rng dt prev_price g = Inr (price, g1)" by blast
  from Cons.prems have "\<forall>dt \<in> set dts. \<exists>base. baseline_price dt = Inr base" by simp
  from Cons.IH[OF this] show ?case by (simp add: body)
qed

section \<open>Properties of the generated series\<close>

lemma timestamps_baseline:
  assumes "dt \<in> set timestamps"
  shows "\<exists>base. baseline_price dt = Inr base"
  using baseline_price_range[OF timestamps_supported[OF assms]] by (elim exE conjE) (rule exI)

lemma generate_prices_Inr:
  assumes "generate_prices rng g = Inr (out, g')"
  shows "\<exists>prices prev_price.
           prices_loop rng timestamps [] None g = Inr (prices, prev_price, g')
           \<and> length prices = length timestamps
           \<and> parquet out = zip timestamps prices
           \<and> console out =
               [[Str (''Generated test_set_2021-2024.parquet with ''
                      @ str_of_nat (length (zip timestamps prices)) @ '' rows.'')],
                [Str ''Example price range:'',
                 Flt (series_min (map snd (zip timestamps prices))),
                 Str ''to'',
                 Flt (series_max (map snd (zip timestamps prices))),
                 Str ([CHR 0xE2, CHR 0x82, CHR 0xAC] @ ''/kWh'')]]"
proof -
  from assms obtain prices prev_price where
    run: "prices_loop rng timestamps [] None g = Inr (prices, prev_price, g')" and
    out: "out = \<lparr>parquet = zip timestamps prices,
                 console = [[Str (''Generated test_set_2021-2024.parquet with ''
                      @ str_of_nat (length (zip timestamps prices)) @ '' rows.'')],
                [Str ''Example price range:'',
                 Flt (series_min (map snd (zip timestamps prices))),
                 Str ''to'',
                 Flt (series_max (map snd (zip timestamps prices))),
                 Str ([CHR 0xE2, CHR 0x82, CHR 0xAC] @ ''/kWh'')]]\<rparr>"
    by (auto simp: generate_prices_def Let_def split: sum.splits prod.splits)
  from prices_loop_state[OF run] have "length prices = length timestamps" by simp
  with run out show ?thesis by simp
qed

lemma generate_prices_total:
  "\<exists>out g'. generate_prices rng g = Inr (out, g')"
proof -
  have "\<forall>dt \<in> set timestamps. \<exists>base. baseline_price dt = Inr base"
    using timestamps_baseline by blast
  from prices_loop_total[OF this, of rng "[]" None g]
  obtain prices prev_price g' where
    "prices_loop rng timestamps [] None g = Inr (prices, prev_price, g')" by blast
  then show ?thesis by (simp add: generate_prices_def Let_def)
qed

text \<open>
  Claim C1. For every hour the loop processes (the hour \<open>dt\<close> that follows the hours
  \<open>dts\<close> already processed): the pre-spike price of the first hour is baseline + noise,
  that of a later hour is 0.8 * previous output price + 0.2 * (baseline + noise), where the
  previous output price is the last price appended; the spike, a multiplication by the
  draw of \<open>uniform(1.5, 3.5)\<close> taken when the draw of \<open>random()\<close> is below 0.0005,
  comes after the smoothing; the clamp to [0.02, 0.40] comes last; and the value carried
  to the next iteration is the final clamped price that was appended.
\<close>

theorem hour_step:
  assumes run: "prices_loop rng dts [] None g = Inr (prices, prev_price, g0)"
    and base: "baseline_price dt = Inr base"
    and noise: "rng_normal rng 0 0.002 g0 = (noise, g1)"
    and test: "rng_random rng g1 = (u, g2)"
    and factor: "rng_uniform rng 1.5 3.5 g2 = (m, g3)"
  shows "length prices = length dts
         \<and> prev_price = (if dts = [] then None else Some (last prices))
         \<and> prices_loop rng (dts @ [dt]) [] None g =
             (let raw_price = (case prev_price of
                                 None \<Rightarrow> base + noise
                               | Some previous_output_price \<Rightarrow>
                                   0.8 * previous_output_price + 0.2 * (base + noise));
                  spiked = (if u < 0.0005 then raw_price * m else raw_price);
                  final_price = min (max spiked 0.02) 0.40
              in Inr (prices @ [final_price], Some final_price,
                      if u < 0.0005 then g3 else g2))"
proof -
  from prices_loop_state[OF run]
  have st: "length prices = length dts"
    "prev_price = (if dts = [] then None else Some (last prices))" by simp_all
  have "prices_loop rng (dts @ [dt]) [] None g = prices_loop rng [dt] prices prev_price g0"
    by (simp add: prices_loop_append run)
  also have "\<dots> = (let raw_price = (case prev_price of
                                 None \<Rightarrow> base + noise
                               | Some previous_output_price \<Rightarrow>
                                   0.8 * previous_output_price + 0.2 * (base + noise));
                  spiked = (if u < 0.0005 then raw_price * m else raw_price);
                  final_price = min (max spiked 0.02) 0.40
              in Inr (prices @ [final_price], Some final_price,
                      if u < 0.0005 then g3 else g2))"
    by (simp add: loop_body_eq[OF base noise test factor] Let_def)
  finally show ?thesis using st by (intro conjI)
qed

theorem hour_step_witness:
  "prices_loop (fixed_rng 0.001 0.0001 1.5) [Timestamp 2022 1 15 19] [] None ()
     = Inr ([0.339], Some 0.339, ())
   \<and> baseline_price (Timestamp 2022 1 15 20) = Inr 0.225
   \<and> rng_normal (fixed_rng 0.001 0.0001 1.5) 0 0.002 () = (0.001, ())
   \<and> rng_random (fixed_rng 0.001 0.0001 1.5) () = (0.0001, ())
   \<and> rng_uniform (fixed_rng 0.001 0.0001 1.5) 1.5 3.5 () = (1.5, ())
   \<and> prices_loop (fixed_rng 0.001 0.0001 1.5)
        ([Timestamp 2022 1 15 19] @ [Timestamp 2022 1 15 20]) [] None ()
     = Inr ([0.339, 0.40], Some 0.40, ())"
proof -
  have run: "prices_loop (fixed_rng 0.001 0.0001 1.5) [Timestamp 2022 1 15 19] [] None ()
     = Inr ([0.339], Some 0.339, ())"
    by code_simp
  have base: "baseline_price (Timestamp 2022 1 15 20) = Inr 0.225"
    by code_simp
  have noise: "rng_normal (fixed_rng 0.001 0.0001 1.5) 0 0.002 () = (0.001, ())"
    by (simp add: fixed_rng_def)
  have test: "rng_random (fixed_rng 0.001 0.0001 1.5) () = (0.0001, ())"
    by (simp add: fixed_rng_def)
  have factor: "rng_uniform (fixed_rng 0.001 0.0001 1.5) 1.5 3.5 () = (1.5, ())"
    by (simp add: fixed_rng_def)
  have "prices_loop (fixed_rng 0.001 0.0001 1.5)
        ([Timestamp 2022 1 15 19] @ [Timestamp 2022 1 15 20]) [] None ()
     = Inr ([0.339, 0.40], Some 0.40, ())"
    using hour_step[OF run base noise test factor, THEN conjunct2, THEN conjunct2]
    by (simp add: Let_def del: prices_loop.simps append.simps)
  with run base noise test factor show ?thesis by (intro conjI)
qed

text \<open>
  Claim C2. Every row of the generated output has a price in the closed interval
  [0.02, 0.40], whatever the random source draws.
\<close>

theorem prices_within_clamp:
  assumes "generate_prices rng g = Inr (out, g')"
  shows "\<forall>(dt, price_per_kwh) \<in> set (parquet out).
           0.02 \<le> price_per_kwh \<and> price_per_kwh \<le> 0.40"
proof -
  from generate_prices_Inr[OF assms] obtain prices prev_price where
    run: "prices_loop rng timestamps [] None g = Inr (prices, prev_price, g')" and
    df: "parquet out = zip timestamps prices"
    by blast
  have "\<forall>p \<in> set prices. 0.02 \<le> p \<and> p \<le> 0.40"
    by (rule prices_loop_bounds[OF run]) simp
  then show ?thesis unfolding df by (auto dest: set_zip_rightD)
qed

theorem prices_within_clamp_witness:
  "\<exists>out g'. generate_prices (fixed_rng 0.001 0.0001 1.5) () = Inr (out, g')
     \<and> (\<forall>(dt, price_per_kwh) \<in> set (parquet out).
           0.02 \<le> price_per_kwh \<and> price_per_kwh \<le> 0.40)"
proof -
  obtain out g' where r: "generate_prices (fixed_rng 0.001 0.0001 1.5) () = Inr (out, g')"
    using generate_prices_total[of "fixed_rng 0.001 0.0001 1.5" "()"] by blast
  from prices_within_clamp[OF r] r show ?thesis by blast
qed

text \<open>
  Claim C5. \<open>baseline_price\<close> fails, with the key error of the year lookup, exactly when
  the year of the timestamp is outside 2021--2024; for every timestamp of the generator's
  grid the lookup succeeds, and \<open>generate_prices\<close> never takes the error branch.
\<close>

theorem unsupported_year_error:
  "((\<exists>e. baseline_price dt = Inl e) \<longleftrightarrow> ts_year dt \<notin> {2021, 2022, 2023, 2024})
   \<and> (ts_year dt \<notin> {2021, 2022, 2023, 2024} \<longrightarrow>
        baseline_price dt = Inl (KeyError (ts_year dt)))
   \<and> (\<forall>t \<in> set timestamps. \<exists>base. baseline_price t = Inr base)
   \<and> (\<exists>out g'. generate_prices rng g = Inr (out, g'))"
proof (intro conjI impI ballI)
  show "(\<exists>e. baseline_price dt = Inl e) \<longleftrightarrow> ts_year dt \<notin> {2021, 2022, 2023, 2024}"
  proof (cases "ts_year dt \<in> {2021, 2022, 2023, 2024}")
    case True
    from baseline_price_range[OF True] obtain b where "baseline_price dt = Inr b" by blast
    with True show ?thesis by simp
  next
    case False
    from baseline_price_Inl[OF False] False show ?thesis by simp
  qed
  show "baseline_price dt = Inl (KeyError (ts_year dt))"
    if "ts_year dt \<notin> {2021, 2022, 2023, 2024}"
    by (rule baseline_price_Inl[OF that])
  show "\<exists>base. baseline_price t = Inr base" if "t \<in> set timestamps" for t
    by (rule timestamps_baseline[OF that])
  show "\<exists>out g'. generate_prices rng g = Inr (out, g')"
    by (rule generate_prices_total)
qed

theorem unsupported_year_error_witness:
  "ts_year (Timestamp 2025 1 1 0) \<notin> {2021, 2022, 2023, 2024}
   \<and> baseline_price (Timestamp 2025 1 1 0) = Inl (KeyError 2025)
   \<and> Timestamp 2021 1 1 0 \<in> set timestamps
   \<and> (\<exists>base. baseline_price (Timestamp 2021 1 1 0) = Inr base)"
proof -
  have a: "ts_year (Timestamp 2025 1 1 0) \<notin> {2021, 2022, 2023, 2024}" by code_simp
  have y: "ts_year (Timestamp 2025 1 1 0) = 2025" by code_simp
  have m: "Timestamp 2021 1 1 0 \<in> set timestamps"
    unfolding set_timestamps Timestamp_start by simp
  note t = unsupported_year_error[of "Timestamp 2025 1 1 0" "fixed_rng 0 1 2" "()"]
  have "baseline_price (Timestamp 2025 1 1 0) = Inl (KeyError 2025)"
    using t[THEN conjunct2, THEN conjunct1, THEN mp, OF a] unfolding y .
  moreover have "\<exists>base. baseline_price (Timestamp 2021 1 1 0) = Inr base"
    by (rule t[THEN conjunct2, THEN conjunct2, THEN conjunct1, THEN bspec, OF m])
  ultimately show ?thesis using a m by (intro conjI)
qed

lemma upto_as_map: "[i..j] = map (\<lambda>k. i + int k) [0..<nat (j - i + 1)]"
  by (rule nth_equalityI) simp_all

lemma upto_hd_last:
  assumes "i \<le> j"
  shows "hd [i..j] = i" "last [i..j] = j"
proof -
  show "hd [i..j] = i" by (subst upto_rec1[OF assms]) simp
  show "last [i..j] = j" by (subst upto_rec2[OF assms]) simp
qed

lemma upto_spacing:
  "map2 (\<lambda>a b. b - a) (butlast [i..j]) (tl [i..j]) = replicate (nat (j - i)) 1"
  by (rule nth_equalityI) (simp_all add: nth_butlast nth_tl)

lemma timestamps_length: "length timestamps = 35064"
  unfolding timestamps_upto length_upto by simp

lemma timestamps_year_count:
  assumes "447072 \<le> lo" "hi \<le> 482135"
    and "\<And>dt. 447072 \<le> dt \<Longrightarrow> dt \<le> 482135 \<Longrightarrow> (ts_year dt = y) = (lo \<le> dt \<and> dt \<le> hi)"
  shows "length (filter (\<lambda>dt. ts_year dt = y) timestamps) = nat (hi - lo + 1)"
proof -
  have "distinct timestamps" unfolding timestamps_upto by (rule distinct_upto)
  then have "length (filter (\<lambda>dt. ts_year dt = y) timestamps)
               = card ({dt. ts_year dt = y} \<inter> set timestamps)"
    by (rule distinct_length_filter)
  also have "{dt. ts_year dt = y} \<inter> set timestamps = {lo..hi}"
  proof (rule set_eqI)
    fix dt
    show "dt \<in> {dt. ts_year dt = y} \<inter> set timestamps \<longleftrightarrow> dt \<in> {lo..hi}"
    proof (cases "447072 \<le> dt \<and> dt \<le> 482135")
      case True
      then show ?thesis unfolding set_timestamps using assms(3)[of dt] by simp
    next
      case False
      then show ?thesis unfolding set_timestamps using assms(1,2) by auto
    qed
  qed
  finally show ?thesis by simp
qed

lemma year_counts:
  "length (filter (\<lambda>dt. ts_year dt = 2021) timestamps) = 8760"
  "length (filter (\<lambda>dt. ts_year dt = 2022) timestamps) = 8760"
  "length (filter (\<lambda>dt. ts_year dt = 2023) timestamps) = 8760"
  "length (filter (\<lambda>dt. ts_year dt = 2024) timestamps) = 8784"
proof -
  show "length (filter (\<lambda>dt. ts_year dt = 2021) timestamps) = 8760"
    using timestamps_year_count[of 447072 455831 2021] by (simp add: ts_year_grid)
  show "length (filter (\<lambda>dt. ts_year dt = 2022) timestamps) = 8760"
    using timestamps_year_count[of 455832 464591 2022] by (simp add: ts_year_grid)
  show "length (filter (\<lambda>dt. ts_year dt = 2023) timestamps) = 8760"
    using timestamps_year_count[of 464592 473351 2023] by (simp add: ts_year_grid)
  show "length (filter (\<lambda>dt. ts_year dt = 2024) timestamps) = 8784"
    using timestamps_year_count[of 473352 482135 2024] by (simp add: ts_year_grid)
qed

lemma generate_prices_rows:
  "\<exists>out g'. generate_prices rng g = Inr (out, g')
      \<and> map fst (parquet out) = timestamps
      \<and> length (parquet out) = length timestamps"
proof -
  obtain out g' where r: "generate_prices rng g = Inr (out, g')"
    using generate_prices_total[of rng g] by blast
  from generate_prices_Inr[OF r] obtain prices where
    len: "length prices = length timestamps" and df: "parquet out = zip timestamps prices"
    by blast
  from len have "map fst (parquet out) = timestamps" unfolding df by simp
  moreover from len have "length (parquet out) = length timestamps" unfolding df by simp
  ultimately show ?thesis using r by (intro exI[of _ out] exI[of _ g'] conjI)
qed

text \<open>
  Claim C3. The timestamp grid is the inclusive hourly range from 2021-01-01T00:00 to
  2024-12-31T23:00: the k-th timestamp is the start plus k hours, consecutive timestamps
  differ by exactly one hour, the grid is strictly increasing and has no duplicates, it has
  exactly 35064 entries (8760 in each of 2021, 2022, 2023 and 8784 in 2024), and the
  output has one row per timestamp.
\<close>

theorem timestamp_grid:
  "hd timestamps = Timestamp 2021 1 1 0
   \<and> last timestamps = Timestamp 2024 12 31 23
   \<and> (ts_year (hd timestamps), ts_month (hd timestamps), ts_day (hd timestamps),
        ts_hour (hd timestamps)) = (2021, 1, 1, 0)
   \<and> (ts_year (last timestamps), ts_month (last timestamps), ts_day (last timestamps),
        ts_hour (last timestamps)) = (2024, 12, 31, 23)
   \<and> timestamps = map (\<lambda>k. Timestamp 2021 1 1 0 + int k) [0..<35064]
   \<and> map2 (\<lambda>a b. b - a) (butlast timestamps) (tl timestamps) = replicate 35063 1
   \<and> sorted_wrt (<) timestamps
   \<and> distinct timestamps
   \<and> length timestamps = 35064
   \<and> length (filter (\<lambda>dt. ts_year dt = 2021) timestamps) = 8760
   \<and> length (filter (\<lambda>dt. ts_year dt = 2022) timestamps) = 8760
   \<and> length (filter (\<lambda>dt. ts_year dt = 2023) timestamps) = 8760
   \<and> length (filter (\<lambda>dt. ts_year dt = 2024) timestamps) = 8784
   \<and> (\<exists>out g'. generate_prices rng g = Inr (out, g')
          \<and> map fst (parquet out) = timestamps
          \<and> length (parquet out) = 35064)"
proof -
  have le: "(447072 :: int) \<le> 482135" by simp
  have h: "hd timestamps = Timestamp 2021 1 1 0"
    unfolding timestamps_upto Timestamp_start by (rule upto_hd_last[OF le])
  have l: "last timestamps = Timestamp 2024 12 31 23"
    unfolding timestamps_upto Timestamp_end by (rule upto_hd_last[OF le])
  have fh: "(ts_year (Timestamp 2021 1 1 0), ts_month (Timestamp 2021 1 1 0),
             ts_day (Timestamp 2021 1 1 0), ts_hour (Timestamp 2021 1 1 0)) = (2021, 1, 1, 0)"
    by code_simp
  have fl: "(ts_year (Timestamp 2024 12 31 23), ts_month (Timestamp 2024 12 31 23),
             ts_day (Timestamp 2024 12 31 23), ts_hour (Timestamp 2024 12 31 23))
            = (2024, 12, 31, 23)"
    by code_simp
  have n: "nat (482135 - 447072 + 1) = 35064" "nat (482135 - 447072) = 35063" by simp_all
  have m: "timestamps = map (\<lambda>k. Timestamp 2021 1 1 0 + int k) [0..<35064]"
    unfolding timestamps_upto Timestamp_start using upto_as_map[of 447072 482135]
    unfolding n .
  have sp: "map2 (\<lambda>a b. b - a) (butlast timestamps) (tl timestamps) = replicate 35063 1"
    unfolding timestamps_upto using upto_spacing[of 447072 482135] unfolding n .
  have so: "sorted_wrt (<) timestamps" unfolding timestamps_upto by (rule sorted_wrt_upto)
  have di: "distinct timestamps" unfolding timestamps_upto by (rule distinct_upto)
  have rows: "\<exists>out g'. generate_prices rng g = Inr (out, g')
          \<and> map fst (parquet out) = timestamps
          \<and> length (parquet out) = 35064"
    using generate_prices_rows[of rng g] unfolding timestamps_length .
  show ?thesis
    unfolding h l fh fl
    by (intro conjI refl) (rule h l m[unfolded h] sp so di timestamps_length year_counts rows fh fl)+
qed

theorem timestamp_grid_witness:
  "length timestamps = 35064
   \<and> (\<exists>out g'. generate_prices (fixed_rng 0 1 2) () = Inr (out, g')
          \<and> map fst (parquet out) = timestamps
          \<and> length (parquet out) = 35064)"
proof -
  note t = timestamp_grid[of "fixed_rng 0 1 2" "()"]
  from t have a: "length timestamps = 35064" by (elim conjE)
  from t have b: "\<exists>out g'. generate_prices (fixed_rng 0 1 2) () = Inr (out, g')
          \<and> map fst (parquet out) = timestamps
          \<and> length (parquet out) = 35064" by (elim conjE)
  show ?thesis by (intro conjI a b)
qed






section \<open>Properties of the report\<close>

lemma series_min_Min:
  assumes "xs \<noteq> []"
  shows "series_min xs = Some (Min (set xs))" "series_max xs = Some (Max (set xs))"
proof -
  from assms obtain y ys where xs: "xs = y # ys" by (cases xs) auto
  show "series_min xs = Some (Min (set xs))"
    unfolding xs series_min_def by (simp only: list.case Min.set_eq_fold)
  show "series_max xs = Some (Max (set xs))"
    unfolding xs series_max_def by (simp only: list.case Max.set_eq_fold)
qed

lemma str_of_nat_35064: "str_of_nat 35064 = ''35064''"
  by (simp add: str_of_nat.simps)

text \<open>
  Claim C9. After the series is written, the console report has exactly two lines: the
  first gives the number of rows written (the length of the generated series, 35064), the
  second gives the minimum and the maximum of the generated prices.
\<close>

theorem console_report:
  assumes "generate_prices rng g = Inr (out, g')"
  shows "length (console out) = 2
         \<and> console out ! 0 =
             [Str (''Generated test_set_2021-2024.parquet with ''
                   @ str_of_nat (length (parquet out)) @ '' rows.'')]
         \<and> str_of_nat (length (parquet out)) = ''35064''
         \<and> console out ! 1 =
             [Str ''Example price range:'',
              Flt (Some (Min (snd ` set (parquet out)))),
              Str ''to'',
              Flt (Some (Max (snd ` set (parquet out)))),
              Str ([CHR 0xE2, CHR 0x82, CHR 0xAC] @ ''/kWh'')]"
proof -
  from generate_prices_Inr[OF assms] obtain prices prev_price where
    len: "length prices = length timestamps" and
    df: "parquet out = zip timestamps prices" and
    con: "console out =
               [[Str (''Generated test_set_2021-2024.parquet with ''
                      @ str_of_nat (length (zip timestamps prices)) @ '' rows.'')],
                [Str ''Example price range:'',
                 Flt (series_min (map snd (zip timestamps prices))),
                 Str ''to'',
                 Flt (series_max (map snd (zip timestamps prices))),
                 Str ([CHR 0xE2, CHR 0x82, CHR 0xAC] @ ''/kWh'')]]"
    by blast
  have rows: "length (parquet out) = 35064"
    unfolding df using len timestamps_length by simp
  then have ne: "map snd (parquet out) \<noteq> []" by auto
  have col: "set (map snd (parquet out)) = snd ` set (parquet out)" by simp
  have mn: "series_min (map snd (parquet out)) = Some (Min (snd ` set (parquet out)))"
    and mx: "series_max (map snd (parquet out)) = Some (Max (snd ` set (parquet out)))"
    using series_min_Min[OF ne] unfolding col by simp_all
  have c: "console out =
               [[Str (''Generated test_set_2021-2024.parquet with ''
                      @ str_of_nat (length (parquet out)) @ '' rows.'')],
                [Str ''Example price range:'',
                 Flt (Some (Min (snd ` set (parquet out)))),
                 Str ''to'',
                 Flt (Some (Max (snd ` set (parquet out)))),
                 Str ([CHR 0xE2, CHR 0x82, CHR 0xAC] @ ''/kWh'')]]"
    using con unfolding df[symmetric] mn mx .
  have s: "str_of_nat (length (parquet out)) = ''35064''"
    unfolding rows by (rule str_of_nat_35064)
  show ?thesis unfolding c by (intro conjI s) simp_all
qed

theorem console_report_witness:
  "\<exists>out g'. generate_prices (fixed_rng 0.001 0.0001 1.5) () = Inr (out, g')
     \<and> length (console out) = 2
     \<and> console out ! 0 = [Str ''Generated test_set_2021-2024.parquet with 35064 rows.'']"
proof -
  obtain out g' where r: "generate_prices (fixed_rng 0.001 0.0001 1.5) () = Inr (out, g')"
    using generate_prices_total[of "fixed_rng 0.001 0.0001 1.5" "()"] by blast
  note c = console_report[OF r]
  from c have a: "length (console out) = 2" by (elim conjE)
  from c have "console out ! 0 = [Str ''Generated test_set_2021-2024.parquet with 35064 rows.'']"
    by (elim conjE) simp
  with a r show ?thesis by (intro exI[of _ out] exI[of _ g'] conjI)
qed

section \<open>Determinism\<close>

text \<open>
  Two random sources, possibly with different internal states, give identical draws when
  some relation \<open>R\<close> between their states is preserved by every draw operation and related
  states always yield equal draws. The loop then proceeds in lockstep.
\<close>

lemma loop_body_rel:
  assumes R: "R g h"
    and normal: "\<And>loc scale g h. R g h \<Longrightarrow>
          fst (rng_normal r1 loc scale g) = fst (rng_normal r2 loc scale h)
          \<and> R (snd (rng_normal r1 loc scale g)) (snd (rng_normal r2 loc scale h))"
    and random: "\<And>g h. R g h \<Longrightarrow>
          fst (rng_random r1 g) = fst (rng_random r2 h)
          \<and> R (snd (rng_random r1 g)) (snd (rng_random r2 h))"
    and uniform: "\<And>low high g h. R g h \<Longrightarrow>
          fst (rng_uniform r1 low high g) = fst (rng_uniform r2 low high h)
          \<and> R (snd (rng_uniform r1 low high g)) (snd (rng_uniform r2 low high h))"
  shows "rel_sum (=) (rel_prod (=) R)
           (loop_body r1 dt prev_price g) (loop_body r2 dt prev_price h)"
proof (cases "baseline_price dt")
  case (Inl e)
  then show ?thesis by (simp add: loop_body_error)
next
  case (Inr base)
  obtain noise g1 where n1: "rng_normal r1 0 0.002 g = (noise, g1)" by (rule prod.exhaust)
  obtain noise' h1 where n2: "rng_normal r2 0 0.002 h = (noise', h1)" by (rule prod.exhaust)
  from normal[OF R, of 0 "0.002"] have "noise' = noise" and R1: "R g1 h1"
    unfolding n1 n2 by simp_all
  obtain u g2 where u1: "rng_random r1 g1 = (u, g2)" by (rule prod.exhaust)
  obtain u' h2 where u2: "rng_random r2 h1 = (u', h2)" by (rule prod.exhaust)
  from random[OF R1] have "u' = u" and R2: "R g2 h2"
    unfolding u1 u2 by simp_all
  obtain m g3 where m1: "rng_uniform r1 1.5 3.5 g2 = (m, g3)" by (rule prod.exhaust)
  obtain m' h3 where m2: "rng_uniform r2 1.5 3.5 h2 = (m', h3)" by (rule prod.exhaust)
  from uniform[OF R2, of "1.5" "3.5"] have "m' = m" and R3: "R g3 h3"
    unfolding m1 m2 by simp_all
  show ?thesis
    unfolding loop_body_eq[OF Inr n1 u1 m1]
      loop_body_eq[OF Inr n2[unfolded \<open>noise' = noise\<close>] u2[unfolded \<open>u' = u\<close>]
                      m2[unfolded \<open>m' = m\<close>]]
    using R2 R3 by simp
qed

lemma prices_loop_rel:
  assumes R: "R g h"
    and normal: "\<And>loc scale g h. R g h \<Longrightarrow>
          fst (rng_normal r1 loc scale g) = fst (rng_normal r2 loc scale h)
          \<and> R (snd (rng_normal r1 loc scale g)) (snd (rng_normal r2 loc scale h))"
    and random: "\<And>g h. R g h \<Longrightarrow>
          fst (rng_random r1 g) = fst (rng_random r2 h)
          \<and> R (snd (rng_random r1 g)) (snd (rng_random r2 h))"
    and uniform: "\<And>low high g h. R g h \<Longrightarrow>
          fst (rng_uniform r1 low high g) = fst (rng_uniform r2 low high h)
          \<and> R (snd (rng_uniform r1 low high g)) (snd (rng_uniform r2 low high h))"
  shows "rel_sum (=) (rel_prod (=) (rel_prod (=) R))
           (prices_loop r1 dts prices prev_price g) (prices_loop r2 dts prices prev_price h)"
  using R
proof (induction dts arbitrary: prices prev_price g h)
  case Nil
  then show ?case by simp
next
  case (Cons dt dts)
  from loop_body_rel[OF Cons.prems normal random uniform, of dt prev_price]
  have body: "rel_sum (=) (rel_prod (=) R)
           (loop_body r1 dt prev_price g) (loop_body r2 dt prev_price h)"
    by blast
  show ?case
  proof (cases "loop_body r1 dt prev_price g")
    case (Inl e)
    with body have "loop_body r2 dt prev_price h = Inl e"
      by (cases "loop_body r2 dt prev_price h") simp_all
    with Inl show ?thesis by simp
  next
    case (Inr res)
    obtain price g1 where res: "res = (price, g1)" by (rule prod.exhaust)
    from body Inr res obtain h1 where
      other: "loop_body r2 dt prev_price h = Inr (price, h1)" and R1: "R g1 h1"
      by (cases "loop_body r2 dt prev_price h") auto
    from Cons.IH[OF R1, of "prices @ [price]" "Some price"] show ?thesis
      by (simp add: Inr res other)
  qed
qed

text \<open>
  Claim C8. Calling \<open>baseline_price\<close> twice with the same timestamp yields the same value,
  and two runs of the whole generation procedure that see identical random draws produce
  identical output (the same table and report, or the same error).
\<close>

theorem two_run_determinism:
  assumes R: "R g h"
    and normal: "\<And>loc scale g h. R g h \<Longrightarrow>
          fst (rng_normal r1 loc scale g) = fst (rng_normal r2 loc scale h)
          \<and> R (snd (rng_normal r1 loc scale g)) (snd (rng_normal r2 loc scale h))"
    and random: "\<And>g h. R g h \<Longrightarrow>
          fst (rng_random r1 g) = fst (rng_random r2 h)
          \<and> R (snd (rng_random r1 g)) (snd (rng_random r2 h))"
    and uniform: "\<And>low high g h. R g h \<Longrightarrow>
          fst (rng_uniform r1 low high g) = fst (rng_uniform r2 low high h)
          \<and> R (snd (rng_uniform r1 low high g)) (snd (rng_uniform r2 low high h))"
  shows "(dt1 = dt2 \<longrightarrow> baseline_price dt1 = baseline_price dt2)
         \<and> map_sum id fst (generate_prices r1 g) = map_sum id fst (generate_prices r2 h)"
proof -
  from prices_loop_rel[OF R normal random uniform, of timestamps "[]" None]
  have rel: "rel_sum (=) (rel_prod (=) (rel_prod (=) R))
           (prices_loop r1 timestamps [] None g) (prices_loop r2 timestamps [] None h)"
    by blast
  have "map_sum id fst (generate_prices r1 g) = map_sum id fst (generate_prices r2 h)"
  proof (cases "prices_loop r1 timestamps [] None g")
    case (Inl e)
    with rel have "prices_loop r2 timestamps [] None h = Inl e"
      by (cases "prices_loop r2 timestamps [] None h") simp_all
    with Inl show ?thesis by (simp add: generate_prices_def)
  next
    case (Inr res)
    obtain prices prev_price g' where res: "res = (prices, prev_price, g')"
      by (cases res) auto
    from rel Inr res obtain h' where
      "prices_loop r2 timestamps [] None h = Inr (prices, prev_price, h')"
      by (cases "prices_loop r2 timestamps [] None h") auto
    with Inr res show ?thesis by (simp add: generate_prices_def Let_def)
  qed
  then show ?thesis by simp
qed

theorem two_run_determinism_witness:
  "(\<forall>loc scale (g :: unit) (h :: bool).
      fst (rng_normal (fixed_rng 0.001 1 2) loc scale g)
        = fst (rng_normal (fixed_rng 0.001 1 2) loc scale h))
   \<and> (\<forall>(g :: unit) (h :: bool).
      fst (rng_random (fixed_rng 0.001 1 2) g) = fst (rng_random (fixed_rng 0.001 1 2) h))
   \<and> (\<forall>low high (g :: unit) (h :: bool).
      fst (rng_uniform (fixed_rng 0.001 1 2) low high g)
        = fst (rng_uniform (fixed_rng 0.001 1 2) low high h))
   \<and> map_sum id fst (generate_prices (fixed_rng 0.001 1 2) ())
       = map_sum id fst (generate_prices (fixed_rng 0.001 1 2) True)"
proof -
  have "map_sum id fst (generate_prices (fixed_rng 0.001 1 2) ())
       = map_sum id fst (generate_prices (fixed_rng 0.001 1 2) True)"
    using two_run_determinism[of "\<lambda>_ _. True" "()" True
            "fixed_rng 0.001 1 2" "fixed_rng 0.001 1 2" 0 0]
    by (simp add: fixed_rng_def)
  then show ?thesis by (simp add: fixed_rng_def)
qed

section \<open>Float64 rounding\<close>

text \<open>Rounding to the nearest double changes a value by at most \<open>2 ^ -53\<close> of itself.\<close>

lemma pow2_powi: "pow2 e = 2 powi e"
  by (simp add: pow2_def power_int_def field_simps)

lemma pow2_pos: "0 < pow2 e"
  by (simp add: pow2_powi)

lemma pow2_diff: "pow2 (a - b) = pow2 a / pow2 b"
  by (simp add: pow2_powi power_int_diff)

lemma pow2_nat: "pow2 (int n) = 2 ^ n"
  by (simp add: pow2_powi)

lemma pow2_nonneg: "0 \<le> e \<Longrightarrow> pow2 e = of_int (2 ^ nat e)"
  by (simp add: pow2_def)

lemma ilog2_lower:
  assumes "0 < x"
  shows "pow2 (ilog2 x) \<le> x"
proof -
  obtain p q where pq: "quotient_of x = (p, q)" by (rule prod.exhaust)
  have q: "0 < q" by (rule quotient_of_denom_pos[OF pq])
  have x: "x = of_int p / of_int q" by (rule quotient_of_div[OF pq])
  have p: "0 < p" using assms q unfolding x by (simp add: zero_less_divide_iff)
  define d where "d = bitlen p - bitlen q"
  have il: "ilog2 x = (if pow2 d \<le> x then d else d - 1)"
    by (simp add: ilog2_def pq d_def Let_def)
  show ?thesis
  proof (cases "pow2 d \<le> x")
    case True
    then show ?thesis by (simp add: il)
  next
    case False
    have bp: "1 \<le> bitlen p" using p bitlen_eq_zero_iff[of p] bitlen_nonneg[of p] by linarith
    have bq: "0 \<le> bitlen q" by (rule bitlen_nonneg)
    have lo: "(2 :: int) ^ nat (bitlen p - 1) \<le> p" using bitlen_bounds[OF p] by simp
    have hi: "q < 2 ^ nat (bitlen q)" using bitlen_bounds[OF q] by simp
    have lo': "pow2 (bitlen p - 1) \<le> of_int p"
    proof -
      have "pow2 (bitlen p - 1) = of_int (2 ^ nat (bitlen p - 1))"
        using bp by (intro pow2_nonneg) simp
      also have "\<dots> \<le> of_int p" using lo by (simp only: of_int_le_iff)
      finally show ?thesis .
    qed
    have hi': "of_int q \<le> pow2 (bitlen q)"
    proof -
      have "(of_int q :: rat) \<le> of_int (2 ^ nat (bitlen q))"
        using hi by (simp only: of_int_le_iff)
      also have "\<dots> = pow2 (bitlen q)" by (rule pow2_nonneg[OF bq, symmetric])
      finally show ?thesis .
    qed
    have "pow2 (d - 1) = pow2 (bitlen p - 1) / pow2 (bitlen q)"
      unfolding d_def using pow2_diff[of "bitlen p - 1" "bitlen q"] by (simp add: algebra_simps)
    also have "\<dots> \<le> of_int p / of_int q"
      using lo' hi' q p pow2_pos[of "bitlen q"] pow2_pos[of "bitlen p - 1"]
      by (intro frac_le) simp_all
    finally have "pow2 (d - 1) \<le> x" unfolding x .
    with False show ?thesis unfolding il by simp
  qed
qed

lemma round_half_even_error: "\<bar>of_int (round_half_even y) - y\<bar> \<le> 1 / 2"
proof -
  have "of_int \<lfloor>y\<rfloor> \<le> y" "y < of_int \<lfloor>y\<rfloor> + 1" by linarith+
  then show ?thesis
    by (auto simp: round_half_even_def Let_def abs_le_iff)
qed

lemma round64_error: "\<bar>round64 x - x\<bar> \<le> \<bar>x\<bar> / 2 ^ 53"
proof (cases "x = 0")
  case True
  then show ?thesis by (simp add: round64_def)
next
  case False
  define a where "a = \<bar>x\<bar>"
  define u where "u = pow2 (ilog2 a - 52)"
  define n :: rat where "n = of_int (round_half_even (a / u))"
  have a: "0 < a" using False by (simp add: a_def)
  have u: "0 < u" by (simp add: u_def pow2_pos)
  have "u = pow2 (ilog2 a) / 2 ^ 52"
    unfolding u_def pow2_diff using pow2_nat[of 52] by simp
  also have "\<dots> \<le> a / 2 ^ 52" using ilog2_lower[OF a] by (simp add: divide_right_mono)
  finally have ua: "u \<le> a / 2 ^ 52" .
  have r: "round64 x = sgn x * n * u"
    using False by (simp add: round64_def Let_def a_def u_def n_def)
  have "\<bar>round64 x - x\<bar> = \<bar>n * u - a\<bar>"
  proof (cases "0 < x")
    case True
    then have "round64 x = n * u" "a = x" by (simp_all add: r a_def)
    then show ?thesis by simp
  next
    case neg: False
    with False have "x < 0" by simp
    then have "round64 x = - (n * u)" "x = - a" by (simp_all add: r a_def)
    then have "round64 x - x = - (n * u - a)" by simp
    then show ?thesis by (simp only: abs_minus)
  qed
  also have "n * u - a = (n - a / u) * u" using u by (simp add: field_simps)
  also have "\<bar>(n - a / u) * u\<bar> = \<bar>n - a / u\<bar> * u" using u by (simp add: abs_mult)
  also have "\<dots> \<le> 1 / 2 * u"
    using round_half_even_error[of "a / u"] u unfolding n_def
    by (intro mult_right_mono) simp_all
  also have "\<dots> \<le> 1 / 2 * (a / 2 ^ 52)" using ua by simp
  also have "\<dots> = \<bar>x\<bar> / 2 ^ 53" by (simp add: a_def)
  finally show ?thesis .
qed

section \<open>The baseline price in float64\<close>

lemma year_factor_f64_supported:
  "y \<in> {2021, 2022, 2023, 2024} \<Longrightarrow>
   year_factor_f64 y = Some (round64 (if y = 2021 then 0.07 else if y = 2022 then 0.15
                                      else if y = 2023 then 0.11 else 0.085))"
  by (auto simp: year_factor_f64_def)

lemma baseline_price_f64_Inr:
  assumes yr: "ts_year dt \<in> {2021, 2022, 2023, 2024}"
  shows "baseline_price_f64 dt =
           Inr (fmul (fmul (round64 (if ts_year dt = 2021 then 0.07 else if ts_year dt = 2022 then 0.15
                                     else if ts_year dt = 2023 then 0.11 else 0.085))
                           (round64 (if ts_month dt \<in> set [12, 1, 2] then 1.25
                                     else if ts_month dt \<in> set [6, 7, 8] then 0.85 else 1.05)))
                     (round64 (if 0 \<le> ts_hour dt \<and> ts_hour dt < 6 then 0.85
                               else if 6 \<le> ts_hour dt \<and> ts_hour dt < 12 then 1.05
                               else if 12 \<le> ts_hour dt \<and> ts_hour dt < 18 then 1.15
                               else if 18 \<le> ts_hour dt \<and> ts_hour dt < 22 then 1.20
                               else 1.00)))"
  by (simp add: baseline_price_f64_def year_factor_f64_supported[OF yr] Let_def)

lemma round64_bounds:
  assumes "0 \<le> lo" "lo \<le> x" "x \<le> hi"
  shows "lo * (1 - 1 / 2 ^ 53) \<le> round64 x" "round64 x \<le> hi * (1 + 1 / 2 ^ 53)"
proof -
  have x: "0 \<le> x" using assms by simp
  from round64_error[of x] x have "\<bar>round64 x - x\<bar> \<le> x / 2 ^ 53" by simp
  then have r: "x - x / 2 ^ 53 \<le> round64 x" "round64 x \<le> x + x / 2 ^ 53" by linarith+
  have "lo * (1 - 1 / 2 ^ 53) \<le> x * (1 - 1 / 2 ^ 53)"
    using assms by (intro mult_right_mono) simp_all
  also have "\<dots> = x - x / 2 ^ 53" by (simp add: algebra_simps)
  finally show "lo * (1 - 1 / 2 ^ 53) \<le> round64 x" using r by simp
  have "x + x / 2 ^ 53 = x * (1 + 1 / 2 ^ 53)" by (simp add: algebra_simps)
  also have "\<dots> \<le> hi * (1 + 1 / 2 ^ 53)"
    using assms by (intro mult_right_mono) simp_all
  finally show "round64 x \<le> hi * (1 + 1 / 2 ^ 53)" using r by simp
qed

lemma fmul_bounds:
  assumes "0 \<le> l1" "l1 \<le> a" "a \<le> h1" "0 \<le> l2" "l2 \<le> b" "b \<le> h2"
  shows "l1 * l2 * (1 - 1 / 2 ^ 53) \<le> fmul a b" "fmul a b \<le> h1 * h2 * (1 + 1 / 2 ^ 53)"
proof -
  have lo: "0 \<le> l1 * l2" using assms by simp
  have l: "l1 * l2 \<le> a * b" using assms by (intro mult_mono) simp_all
  have h: "a * b \<le> h1 * h2" using assms by (intro mult_mono) simp_all
  show "l1 * l2 * (1 - 1 / 2 ^ 53) \<le> fmul a b" "fmul a b \<le> h1 * h2 * (1 + 1 / 2 ^ 53)"
    unfolding fmul_def using round64_bounds[OF lo l h] by simp_all
qed

lemma baseline_price_f64_close:
  assumes yr: "ts_year dt \<in> {2021, 2022, 2023, 2024}"
  shows "\<exists>b. baseline_price_f64 dt = Inr b
           \<and> \<bar>b - (if ts_year dt = 2021 then 0.07 else if ts_year dt = 2022 then 0.15
                     else if ts_year dt = 2023 then 0.11 else 0.085)
                  * (if ts_month dt \<in> set [12, 1, 2] then 1.25
                     else if ts_month dt \<in> set [6, 7, 8] then 0.85 else 1.05)
                  * (if 0 \<le> ts_hour dt \<and> ts_hour dt < 6 then 0.85
                     else if 6 \<le> ts_hour dt \<and> ts_hour dt < 12 then 1.05
                     else if 12 \<le> ts_hour dt \<and> ts_hour dt < 18 then 1.15
                     else if 18 \<le> ts_hour dt \<and> ts_hour dt < 22 then 1.20
                     else 1.00)\<bar> \<le> 1 / 2 ^ 52
           \<and> 0.05 \<le> b \<and> b \<le> 0.2251"
proof -
  define yd :: rat where "yd = (if ts_year dt = 2021 then 0.07 else if ts_year dt = 2022 then 0.15
                     else if ts_year dt = 2023 then 0.11 else 0.085)"
  define sd :: rat where "sd = (if ts_month dt \<in> set [12, 1, 2] then 1.25
                     else if ts_month dt \<in> set [6, 7, 8] then 0.85 else 1.05)"
  define td :: rat where "td = (if 0 \<le> ts_hour dt \<and> ts_hour dt < 6 then 0.85
                     else if 6 \<le> ts_hour dt \<and> ts_hour dt < 12 then 1.05
                     else if 12 \<le> ts_hour dt \<and> ts_hour dt < 18 then 1.15
                     else if 18 \<le> ts_hour dt \<and> ts_hour dt < 22 then 1.20
                     else 1.00)"
  define m :: rat where "m = 1 - 1 / 2 ^ 53"
  define M :: rat where "M = 1 + 1 / 2 ^ 53"
  define v where "v = yd * sd * td"
  define b where "b = fmul (fmul (round64 yd) (round64 sd)) (round64 td)"
  have b: "baseline_price_f64 dt = Inr b"
    unfolding b_def yd_def sd_def td_def by (rule baseline_price_f64_Inr[OF yr])
  have yd: "0.07 \<le> yd" "yd \<le> 0.15" by (simp_all add: yd_def)
  have sd: "0.85 \<le> sd" "sd \<le> 1.25" by (simp_all add: sd_def)
  have td: "0.85 \<le> td" "td \<le> 1.20" by (simp_all add: td_def)
  have m: "0 \<le> m" and M: "0 \<le> M" by (simp_all add: m_def M_def)
  have yd0: "0 \<le> yd" and sd0: "0 \<le> sd" and td0: "0 \<le> td" using yd sd td by simp_all
  have Y: "yd * m \<le> round64 yd" "round64 yd \<le> yd * M"
    unfolding m_def M_def by (rule round64_bounds[OF yd0 order_refl order_refl])+
  have S: "sd * m \<le> round64 sd" "round64 sd \<le> sd * M"
    unfolding m_def M_def by (rule round64_bounds[OF sd0 order_refl order_refl])+
  have T: "td * m \<le> round64 td" "round64 td \<le> td * M"
    unfolding m_def M_def by (rule round64_bounds[OF td0 order_refl order_refl])+
  have ym: "0 \<le> yd * m" and sm: "0 \<le> sd * m" and tm: "0 \<le> td * m"
    using yd0 sd0 td0 m by simp_all
  have P1: "yd * m * (sd * m) * m \<le> fmul (round64 yd) (round64 sd)"
    "fmul (round64 yd) (round64 sd) \<le> yd * M * (sd * M) * M"
    unfolding m_def M_def
    by (rule fmul_bounds[OF ym[unfolded m_def] Y[unfolded m_def M_def]
                            sm[unfolded m_def] S[unfolded m_def M_def]])+
  have p1: "0 \<le> yd * m * (sd * m) * m" using ym sm m by simp
  have P2: "yd * m * (sd * m) * m * (td * m) * m \<le> b"
    "b \<le> yd * M * (sd * M) * M * (td * M) * M"
    unfolding m_def M_def b_def
    by (rule fmul_bounds[OF p1[unfolded m_def] P1[unfolded m_def M_def]
                            tm[unfolded m_def] T[unfolded m_def M_def]])+
  have L: "yd * m * (sd * m) * m * (td * m) * m = v * (m * m * m * m * m)"
    and H: "yd * M * (sd * M) * M * (td * M) * M = v * (M * M * M * M * M)"
    by (simp_all add: v_def mult_ac)
  have v0: "0 \<le> v" using yd0 sd0 td0 by (simp add: v_def)
  have ys: "yd * sd \<le> 0.15 * 1.25" using yd sd yd0 sd0 by (intro mult_mono) simp_all
  have ys0: "0 \<le> yd * sd" using yd0 sd0 by simp
  have "v \<le> 0.15 * 1.25 * 1.20" unfolding v_def
  proof (rule mult_mono)
    show "yd * sd \<le> 0.15 * 1.25" by (rule ys)
    show "td \<le> 1.20" by (rule td)
    show "(0 :: rat) \<le> 0.15 * 1.25" by simp
    show "0 \<le> td" by (rule td0)
  qed
  then have v1: "v \<le> 0.225" by simp
  have ys': "0.07 * 0.85 \<le> yd * sd" using yd sd by (intro mult_mono) simp_all
  have "0.07 * 0.85 * 0.85 \<le> v" unfolding v_def
  proof (rule mult_mono)
    show "0.07 * 0.85 \<le> yd * sd" by (rule ys')
    show "0.85 \<le> td" by (rule td)
    show "0 \<le> yd * sd" by (rule ys0)
    show "(0 :: rat) \<le> 0.85" by simp
  qed
  then have v2: "0.050575 \<le> v" by simp
  have k1: "1 - m * m * m * m * m \<le> 6 / 2 ^ 53" "0 \<le> 1 - m * m * m * m * m"
    by (simp_all add: m_def)
  have k2: "M * M * M * M * M - 1 \<le> 6 / 2 ^ 53" "0 \<le> M * M * M * M * M - 1"
    by (simp_all add: M_def)
  have "v * (1 - m * m * m * m * m) \<le> 0.225 * (6 / 2 ^ 53)"
    using v0 v1 k1 by (intro mult_mono) simp_all
  then have lo: "v - 1 / 2 ^ 52 \<le> v * (m * m * m * m * m)"
    by (simp add: algebra_simps)
  have "v * (M * M * M * M * M - 1) \<le> 0.225 * (6 / 2 ^ 53)"
    using v0 v1 k2 by (intro mult_mono) simp_all
  then have hi: "v * (M * M * M * M * M) \<le> v + 1 / 2 ^ 52"
    by (simp add: algebra_simps)
  from P2 lo hi have bb: "v - 1 / 2 ^ 52 \<le> b" "b \<le> v + 1 / 2 ^ 52"
    unfolding L H by linarith+
  then have close: "\<bar>b - v\<bar> \<le> 1 / 2 ^ 52" by linarith
  have "0.05 \<le> b" using bb(1) v2 by simp
  moreover have "b \<le> 0.2251" using bb(2) v1 by simp
  ultimately have "0.05 \<le> b" "b \<le> 0.2251" .
  with b close show ?thesis
    unfolding v_def yd_def sd_def td_def by (intro exI[of _ b] conjI)
qed

lemma baseline_f64_2022_01_15_19:
  "baseline_price_f64 (Timestamp 2022 1 15 19) = Inr (2026619832316723 / 2 ^ 53)"
  by code_simp

lemma baseline_f64_2024_07_10_03:
  "baseline_price_f64 (Timestamp 2024 7 10 3) = Inr (2212618496927125 / 2 ^ 55)"
  by code_simp

lemma round64_0225: "round64 0.225 = 8106479329266893 / 2 ^ 55"
  by code_simp

lemma round64_00614125: "round64 0.0614125 = 8850473987708499 / 2 ^ 57"
  by code_simp

lemma baseline_price_f64_factors:
  assumes yr: "ts_year dt \<in> {2021, 2022, 2023, 2024}"
  shows "\<exists>yf sm tm.
           baseline_price_f64 dt = Inr (fmul (fmul (round64 yf) (round64 sm)) (round64 tm))
         \<and> \<bar>fmul (fmul (round64 yf) (round64 sm)) (round64 tm) - yf * sm * tm\<bar> \<le> 1 / 2 ^ 52
         \<and> (ts_year dt = 2021 \<longrightarrow> yf = 0.07) \<and> (ts_year dt = 2022 \<longrightarrow> yf = 0.15)
         \<and> (ts_year dt = 2023 \<longrightarrow> yf = 0.11) \<and> (ts_year dt = 2024 \<longrightarrow> yf = 0.085)
         \<and> (ts_month dt \<in> {12, 1, 2} \<longrightarrow> sm = 1.25)
         \<and> (ts_month dt \<in> {6, 7, 8} \<longrightarrow> sm = 0.85)
         \<and> (ts_month dt \<notin> {12, 1, 2} \<union> {6, 7, 8} \<longrightarrow> sm = 1.05)
         \<and> (ts_hour dt \<in> {0..<6} \<longrightarrow> tm = 0.85)
         \<and> (ts_hour dt \<in> {6..<12} \<longrightarrow> tm = 1.05)
         \<and> (ts_hour dt \<in> {12..<18} \<longrightarrow> tm = 1.15)
         \<and> (ts_hour dt \<in> {18..<22} \<longrightarrow> tm = 1.20)
         \<and> (ts_hour dt \<in> {22..<24} \<longrightarrow> tm = 1.00)
         \<and> ts_hour dt \<in> {0..<24}"
proof -
  define yf :: rat where "yf = (if ts_year dt = 2021 then 0.07 else if ts_year dt = 2022 then 0.15
                              else if ts_year dt = 2023 then 0.11 else 0.085)"
  define sm :: rat where "sm = (if ts_month dt \<in> set [12, 1, 2] then 1.25
                              else if ts_month dt \<in> set [6, 7, 8] then 0.85 else 1.05)"
  define tm :: rat where "tm = (if 0 \<le> ts_hour dt \<and> ts_hour dt < 6 then 0.85
                           else if 6 \<le> ts_hour dt \<and> ts_hour dt < 12 then 1.05
                           else if 12 \<le> ts_hour dt \<and> ts_hour dt < 18 then 1.15
                           else if 18 \<le> ts_hour dt \<and> ts_hour dt < 22 then 1.20
                           else 1.00)"
  have b: "baseline_price_f64 dt = Inr (fmul (fmul (round64 yf) (round64 sm)) (round64 tm))"
    unfolding yf_def sm_def tm_def by (rule baseline_price_f64_Inr[OF yr])
  from baseline_price_f64_close[OF yr] obtain b' where
    "baseline_price_f64 dt = Inr b'" and c': "\<bar>b' - yf * sm * tm\<bar> \<le> 1 / 2 ^ 52"
    unfolding yf_def sm_def tm_def by (elim exE conjE)
  with b have "b' = fmul (fmul (round64 yf) (round64 sm)) (round64 tm)" by simp
  with c' have c: "\<bar>fmul (fmul (round64 yf) (round64 sm)) (round64 tm) - yf * sm * tm\<bar>
                    \<le> 1 / 2 ^ 52" by simp
  have y: "ts_year dt = 2021 \<longrightarrow> yf = 0.07" "ts_year dt = 2022 \<longrightarrow> yf = 0.15"
      "ts_year dt = 2023 \<longrightarrow> yf = 0.11" "ts_year dt = 2024 \<longrightarrow> yf = 0.085"
    by (simp_all add: yf_def)
  have s: "ts_month dt \<in> {12, 1, 2} \<longrightarrow> sm = 1.25" "ts_month dt \<in> {6, 7, 8} \<longrightarrow> sm = 0.85"
      "ts_month dt \<notin> {12, 1, 2} \<union> {6, 7, 8} \<longrightarrow> sm = 1.05"
    by (auto simp: sm_def)
  have t: "ts_hour dt \<in> {0..<6} \<longrightarrow> tm = 0.85" "ts_hour dt \<in> {6..<12} \<longrightarrow> tm = 1.05"
      "ts_hour dt \<in> {12..<18} \<longrightarrow> tm = 1.15" "ts_hour dt \<in> {18..<22} \<longrightarrow> tm = 1.20"
      "ts_hour dt \<in> {22..<24} \<longrightarrow> tm = 1.00" "ts_hour dt \<in> {0..<24}"
    using ts_hour_bounds[of dt] by (auto simp: tm_def)
  show ?thesis
    by (intro exI[of _ yf] exI[of _ sm] exI[of _ tm] conjI) (rule b c y s t)+
qed

text \<open>
  Claim C4, as the program computes it. For a timestamp whose year is one of 2021--2024,
  \<open>baseline_price\<close> returns the float64 product (year factor * season multiplier) *
  time-of-day multiplier, where each factor is the double nearest its decimal (year
  factors 0.07, 0.15, 0.11, 0.085; season multipliers 1.25 for months 12, 1, 2, 0.85 for
  months 6, 7, 8, 1.05 otherwise; time-of-day multipliers 0.85 for hours 0--5, 1.05 for
  6--11, 1.15 for 12--17, 1.20 for 18--21, 1.00 for 22--23) and each multiplication rounds
  to the nearest double; the result is within \<open>2 ^ -52\<close> of the exact decimal product. At
  2022-01-15T19:00 the value is 2026619832316723 / 2 ^ 53 (printed
  0.22499999999999998), within \<open>2 ^ -55\<close> of 0.225; at 2024-07-10T03:00 it is
  2212618496927125 / 2 ^ 55 (printed 0.06141250000000001), within \<open>2 ^ -56\<close> of
  0.0614125.
\<close>

theorem baseline_price_f64_formula:
  "(ts_year dt \<in> {2021, 2022, 2023, 2024} \<longrightarrow>
      (\<exists>yf sm tm.
           baseline_price_f64 dt = Inr (fmul (fmul (round64 yf) (round64 sm)) (round64 tm))
         \<and> \<bar>fmul (fmul (round64 yf) (round64 sm)) (round64 tm) - yf * sm * tm\<bar> \<le> 1 / 2 ^ 52
         \<and> (ts_year dt = 2021 \<longrightarrow> yf = 0.07) \<and> (ts_year dt = 2022 \<longrightarrow> yf = 0.15)
         \<and> (ts_year dt = 2023 \<longrightarrow> yf = 0.11) \<and> (ts_year dt = 2024 \<longrightarrow> yf = 0.085)
         \<and> (ts_month dt \<in> {12, 1, 2} \<longrightarrow> sm = 1.25)
         \<and> (ts_month dt \<in> {6, 7, 8} \<longrightarrow> sm = 0.85)
         \<and> (ts_month dt \<notin> {12, 1, 2} \<union> {6, 7, 8} \<longrightarrow> sm = 1.05)
         \<and> (ts_hour dt \<in> {0..<6} \<longrightarrow> tm = 0.85)
         \<and> (ts_hour dt \<in> {6..<12} \<longrightarrow> tm = 1.05)
         \<and> (ts_hour dt \<in> {12..<18} \<longrightarrow> tm = 1.15)
         \<and> (ts_hour dt \<in> {18..<22} \<longrightarrow> tm = 1.20)
         \<and> (ts_hour dt \<in> {22..<24} \<longrightarrow> tm = 1.00)
         \<and> ts_hour dt \<in> {0..<24}))
   \<and> baseline_price_f64 (Timestamp 2022 1 15 19) = Inr (2026619832316723 / 2 ^ 53)
   \<and> \<bar>2026619832316723 / 2 ^ 53 - 0.225\<bar> \<le> (1 / 2 ^ 55 :: rat)
   \<and> baseline_price_f64 (Timestamp 2024 7 10 3) = Inr (2212618496927125 / 2 ^ 55)
   \<and> \<bar>2212618496927125 / 2 ^ 55 - 0.0614125\<bar> \<le> (1 / 2 ^ 56 :: rat)"
proof (intro conjI impI)
  show "\<bar>2026619832316723 / 2 ^ 53 - 0.225\<bar> \<le> (1 / 2 ^ 55 :: rat)" by simp
  show "\<bar>2212618496927125 / 2 ^ 55 - 0.0614125\<bar> \<le> (1 / 2 ^ 56 :: rat)" by simp
qed (rule baseline_price_f64_factors baseline_f64_2022_01_15_19 baseline_f64_2024_07_10_03;
     assumption?)+

theorem baseline_price_f64_formula_witness:
  "ts_year (Timestamp 2023 4 10 13) \<in> {2021, 2022, 2023, 2024}
   \<and> ts_year (Timestamp 2023 4 10 13) = 2023
   \<and> ts_month (Timestamp 2023 4 10 13) = 4
   \<and> ts_hour (Timestamp 2023 4 10 13) = 13
   \<and> (\<exists>yf sm tm.
           baseline_price_f64 (Timestamp 2023 4 10 13)
             = Inr (fmul (fmul (round64 yf) (round64 sm)) (round64 tm))
         \<and> \<bar>fmul (fmul (round64 yf) (round64 sm)) (round64 tm) - yf * sm * tm\<bar> \<le> 1 / 2 ^ 52
         \<and> (ts_year (Timestamp 2023 4 10 13) = 2021 \<longrightarrow> yf = 0.07)
         \<and> (ts_year (Timestamp 2023 4 10 13) = 2022 \<longrightarrow> yf = 0.15)
         \<and> (ts_year (Timestamp 2023 4 10 13) = 2023 \<longrightarrow> yf = 0.11)
         \<and> (ts_year (Timestamp 2023 4 10 13) = 2024 \<longrightarrow> yf = 0.085)
         \<and> (ts_month (Timestamp 2023 4 10 13) \<in> {12, 1, 2} \<longrightarrow> sm = 1.25)
         \<and> (ts_month (Timestamp 2023 4 10 13) \<in> {6, 7, 8} \<longrightarrow> sm = 0.85)
         \<and> (ts_month (Timestamp 2023 4 10 13) \<notin> {12, 1, 2} \<union> {6, 7, 8} \<longrightarrow> sm = 1.05)
         \<and> (ts_hour (Timestamp 2023 4 10 13) \<in> {0..<6} \<longrightarrow> tm = 0.85)
         \<and> (ts_hour (Timestamp 2023 4 10 13) \<in> {6..<12} \<longrightarrow> tm = 1.05)
         \<and> (ts_hour (Timestamp 2023 4 10 13) \<in> {12..<18} \<longrightarrow> tm = 1.15)
         \<and> (ts_hour (Timestamp 2023 4 10 13) \<in> {18..<22} \<longrightarrow> tm = 1.20)
         \<and> (ts_hour (Timestamp 2023 4 10 13) \<in> {22..<24} \<longrightarrow> tm = 1.00)
         \<and> ts_hour (Timestamp 2023 4 10 13) \<in> {0..<24})
   \<and> baseline_price_f64 (Timestamp 2023 4 10 13) = Inr (4785524964043889 / 2 ^ 55)"
proof -
  have yr: "ts_year (Timestamp 2023 4 10 13) \<in> {2021, 2022, 2023, 2024}" by code_simp
  have f: "ts_year (Timestamp 2023 4 10 13) = 2023" "ts_month (Timestamp 2023 4 10 13) = 4"
    "ts_hour (Timestamp 2023 4 10 13) = 13"
    "baseline_price_f64 (Timestamp 2023 4 10 13) = Inr (4785524964043889 / 2 ^ 55)"
    by code_simp+
  note t = baseline_price_f64_formula[of "Timestamp 2023 4 10 13", THEN conjunct1, THEN mp, OF yr]
  show ?thesis by (intro conjI) (rule yr t f)+
qed

text \<open>
  The two example values of claim C4 are not the values returned: the result at
  2022-01-15T19:00 is neither 0.225 nor the double nearest 0.225, and the result at
  2024-07-10T03:00 is neither 0.0614125 nor the double nearest 0.0614125.
\<close>

theorem baseline_price_examples_inexact:
  "baseline_price_f64 (Timestamp 2022 1 15 19) \<noteq> Inr 0.225
   \<and> baseline_price_f64 (Timestamp 2022 1 15 19) \<noteq> Inr (round64 0.225)
   \<and> baseline_price_f64 (Timestamp 2024 7 10 3) \<noteq> Inr 0.0614125
   \<and> baseline_price_f64 (Timestamp 2024 7 10 3) \<noteq> Inr (round64 0.0614125)"
  unfolding baseline_f64_2022_01_15_19 baseline_f64_2024_07_10_03 round64_0225 round64_00614125
  by simp

end
